theory Spec2Isabelle
  imports Complex_Main "HOL-Library.Log_Nat"
begin

section \<open>Compression search (ImageCompressor: compressImage, handleCompress)\<close>

text \<open>
  JavaScript numbers are modelled as \<^typ>\<open>real\<close>: the quality bounds, the midpoints and the
  sizes in KB are computed with exact arithmetic. Byte counts and pixel dimensions of decoded
  images are natural numbers. The crop extraction, whose results depend on how a product is
  rounded before \<open>Math.round\<close>, rounds every operation to double precision (see there).

  A \<open>Blob\<close> is an object: every call of \<open>canvas.toBlob\<close> that succeeds allocates a new one.
  The field \<open>blob_serial\<close> is the index of the \<open>toBlob\<close> call that allocated the object (its
  identity); \<open>blob_size\<close> is \<open>blob.size\<close> in bytes.
\<close>

record blob =
  blob_serial :: nat
  blob_size :: nat

text \<open>
  The state of a JavaScript promise as seen by \<open>await\<close>: settled with a value, settled with an
  error, or never settled.
\<close>

datatype 'a promise = Resolved 'a | Rejected | Pending

text \<open>The variables that the closure \<open>tryCompress\<close> shares between its calls.\<close>

record search =
  minQuality :: real
  maxQuality :: real
  bestBlob :: "blob option"
  attempts :: nat

definition maxAttempts :: nat where
  "maxAttempts = 10"

definition sizeKB :: "blob \<Rightarrow> real" where
  "sizeKB b = real (blob_size b) / 1024"

text \<open>\<open>Math.abs(sizeKB - targetKB) <= targetKB * 0.1\<close>\<close>

definition closeEnough :: "real \<Rightarrow> blob \<Rightarrow> bool" where
  "closeEnough targetKB b = (\<bar>sizeKB b - targetKB\<bar> \<le> targetKB * (1 / 10))"

text \<open>
  \<open>tryCompress\<close>. The encoder \<open>toBlob\<close> maps a quality to the size in bytes of the encoded
  image, or to \<open>None\<close> when the callback receives \<open>null\<close>. The list \<open>lg\<close> records the
  encoder calls made so far: the shared variables at the time of the call and the quality
  passed. The result is the state of the promise of \<open>compressImage\<close>, the shared variables at
  the end and the complete record of calls. When the callback receives \<open>null\<close> it returns without calling
  \<open>resolve\<close>: the promise stays pending.
\<close>

function tryCompress ::
  "(real \<Rightarrow> nat option) \<Rightarrow> real \<Rightarrow> search \<Rightarrow> (search \<times> real) list \<Rightarrow> real
     \<Rightarrow> blob promise \<times> search \<times> (search \<times> real) list" where
  "tryCompress toBlob targetKB s lg quality =
     (case toBlob quality of
        None \<Rightarrow> (Pending, s, lg @ [(s, quality)])
      | Some bytes \<Rightarrow>
          (if closeEnough targetKB \<lparr>blob_serial = length lg, blob_size = bytes\<rparr>
               \<or> attempts s \<ge> maxAttempts
           then (Resolved \<lparr>blob_serial = length lg, blob_size = bytes\<rparr>, s, lg @ [(s, quality)])
           else if sizeKB \<lparr>blob_serial = length lg, blob_size = bytes\<rparr> > targetKB
           then tryCompress toBlob targetKB
                  (s\<lparr>attempts := attempts s + 1, maxQuality := quality\<rparr>)
                  (lg @ [(s, quality)]) ((minQuality s + quality) / 2)
           else tryCompress toBlob targetKB
                  (s\<lparr>attempts := attempts s + 1, minQuality := quality,
                     bestBlob := Some \<lparr>blob_serial = length lg, blob_size = bytes\<rparr>\<rparr>)
                  (lg @ [(s, quality)]) ((quality + maxQuality s) / 2)))"
  by pat_completeness auto
termination
  by (relation "measure (\<lambda>(toBlob, targetKB, s, lg, quality). maxAttempts - attempts s)") auto

declare tryCompress.simps [simp del]

text \<open>The shared variables as \<open>img.onload\<close> initialises them.\<close>

definition initialSearch :: search where
  "initialSearch = \<lparr>minQuality = 1 / 10, maxQuality = 1, bestBlob = None, attempts = 0\<rparr>"

text \<open>
  An entry of \<open>imageFiles\<close>: the name of the file, the size in pixels of the decoded
  preview, and the two fields that \<open>handleCompress\<close> fills in.
\<close>

record ImageFile =
  fileName :: string
  imgWidth :: nat
  imgHeight :: nat
  compressedBlob :: "blob option"
  compressedSize :: "nat option"

text \<open>
  \<open>CompressionSettings\<close>. The fields carry the prefix \<open>cs_\<close> because \<open>quality\<close> is also the
  parameter of \<open>tryCompress\<close>.
\<close>

record CompressionSettings =
  cs_targetSize :: real
  cs_format :: string
  cs_quality :: real

definition maxDimension :: real where
  "maxDimension = 1920"

text \<open>
  The dimensions that \<open>img.onload\<close> computes before it draws the image on the canvas. The
  values are the variables \<open>width\<close> and \<open>height\<close> of the source; the canvas element itself
  stores the integer part of what is assigned to its attributes.
\<close>

definition rescale :: "nat \<Rightarrow> nat \<Rightarrow> real \<times> real" where
  "rescale w h =
     (if real w > maxDimension \<or> real h > maxDimension
      then (if w > h then (maxDimension, (real h * maxDimension) / real w)
            else ((real w * maxDimension) / real h, maxDimension))
      else (real w, real h))"

text \<open>
  The encoder of the browser: which image was drawn, at which size, the MIME type and the
  quality give the size of the encoded image, or \<open>None\<close>.
\<close>

type_synonym encoder = "ImageFile \<Rightarrow> real \<times> real \<Rightarrow> string \<Rightarrow> real \<Rightarrow> nat option"

definition compressImage ::
  "encoder \<Rightarrow> CompressionSettings \<Rightarrow> ImageFile
     \<Rightarrow> blob promise \<times> search \<times> (search \<times> real) list" where
  "compressImage toBlob settings imageFile =
     tryCompress
       (toBlob imageFile (rescale (imgWidth imageFile) (imgHeight imageFile))
          (''image/'' @ cs_format settings))
       (cs_targetSize settings) initialSearch [] (cs_quality settings)"

text \<open>
  The loop of \<open>handleCompress\<close>: \<open>await compressImage(imageFile)\<close> inside \<open>try\<close>/\<open>catch\<close>.
  A resolved promise appends the file to \<open>compressedFiles\<close>, a rejected one is caught and
  the loop goes on, and on a promise that never settles the \<open>await\<close> never returns. The
  list \<open>started\<close> names the files for which \<open>compressImage\<close> has been called.
\<close>

fun compressLoop ::
  "encoder \<Rightarrow> CompressionSettings \<Rightarrow> ImageFile list \<Rightarrow> ImageFile list \<Rightarrow> string list
     \<Rightarrow> ImageFile list promise \<times> string list" where
  "compressLoop toBlob settings [] compressedFiles started = (Resolved compressedFiles, started)"
| "compressLoop toBlob settings (imageFile # rest) compressedFiles started =
     (case fst (compressImage toBlob settings imageFile) of
        Resolved compressedBlob' \<Rightarrow>
          compressLoop toBlob settings rest
            (compressedFiles @
               [imageFile\<lparr>compressedBlob := Some compressedBlob',
                          compressedSize := Some (blob_size compressedBlob')\<rparr>])
            (started @ [fileName imageFile])
      | Rejected \<Rightarrow>
          compressLoop toBlob settings rest compressedFiles (started @ [fileName imageFile])
      | Pending \<Rightarrow> (Pending, started @ [fileName imageFile]))"

text \<open>
  \<open>handleCompress\<close>: the promise it returns, resolved with the new value of \<open>imageFiles\<close>,
  and the files whose compression was started.
\<close>

definition handleCompress ::
  "encoder \<Rightarrow> CompressionSettings \<Rightarrow> ImageFile list \<Rightarrow> ImageFile list promise \<times> string list" where
  "handleCompress toBlob settings imageFiles =
     (if imageFiles = [] then (Resolved imageFiles, [])
      else compressLoop toBlob settings imageFiles [] [])"

section \<open>Crop interaction (ImageCropper)\<close>

text \<open>
  \<open>CropArea\<close> has the fields \<open>x\<close>, \<open>y\<close>, \<open>width\<close>, \<open>height\<close>; they carry the prefix \<open>ca_\<close>
  here. The handles \<open>'nw'\<close>, \<open>'ne'\<close>, ... are the constructors \<open>Hnw\<close>, \<open>Hne\<close>, ...; the value
  \<open>null\<close> of \<open>ResizeHandle\<close> is \<open>None\<close>.
\<close>

record CropArea =
  ca_x :: real
  ca_y :: real
  ca_width :: real
  ca_height :: real

datatype ResizeHandle = Hnw | Hne | Hsw | Hse | Hn | Hs | He | Hw

text \<open>
  The state of the component: the React state variables, the size of the canvas and the
  size of the image held by \<open>imageRef\<close> (\<open>None\<close> before the image has loaded).
\<close>

record Cropper =
  cropArea :: CropArea
  isDragging :: bool
  isResizing :: bool
  resizeHandle :: "ResizeHandle option"
  dragStart :: "real \<times> real"
  isTouch :: bool
  rotation :: nat
  canvasWidth :: real
  canvasHeight :: real
  imageRef :: "(nat \<times> nat) option"

text \<open>The initial crop area that \<open>img.onload\<close> and \<open>resetCrop\<close> set, from the canvas size.\<close>

definition initialCropArea :: "real \<Rightarrow> real \<Rightarrow> CropArea" where
  "initialCropArea cw ch =
     (let initialSize = min (min 200 (cw * (1 / 2))) (ch * (1 / 2))
      in \<lparr>ca_x = (cw - initialSize) / 2, ca_y = (ch - initialSize) / 2,
          ca_width = initialSize, ca_height = initialSize\<rparr>)"

text \<open>
  The state after \<open>img.onload\<close>. The handler sets the canvas to the size of the image scaled
  to fit 600 by 400, which the canvas element stores as integers; the size of the canvas is
  a parameter here.
\<close>

definition loadedCropper :: "nat \<times> nat \<Rightarrow> real \<Rightarrow> real \<Rightarrow> Cropper" where
  "loadedCropper img cw ch =
     \<lparr>cropArea = initialCropArea cw ch, isDragging = False, isResizing = False,
      resizeHandle = None, dragStart = (0, 0), isTouch = False, rotation = 0,
      canvasWidth = cw, canvasHeight = ch, imageRef = Some img\<rparr>"

definition getHandleSize :: "Cropper \<Rightarrow> real" where
  "getHandleSize st = (if isTouch st then 24 else 12)"

definition getResizeHandle :: "Cropper \<Rightarrow> real \<Rightarrow> real \<Rightarrow> ResizeHandle option" where
  "getResizeHandle st px py =
     (let handleSize = getHandleSize st;
          cx = ca_x (cropArea st); cy = ca_y (cropArea st);
          width = ca_width (cropArea st); height = ca_height (cropArea st)
      in if px \<ge> cx - handleSize \<and> px \<le> cx + handleSize
            \<and> py \<ge> cy - handleSize \<and> py \<le> cy + handleSize then Some Hnw
         else if px \<ge> cx + width - handleSize \<and> px \<le> cx + width + handleSize
            \<and> py \<ge> cy - handleSize \<and> py \<le> cy + handleSize then Some Hne
         else if px \<ge> cx - handleSize \<and> px \<le> cx + handleSize
            \<and> py \<ge> cy + height - handleSize \<and> py \<le> cy + height + handleSize then Some Hsw
         else if px \<ge> cx + width - handleSize \<and> px \<le> cx + width + handleSize
            \<and> py \<ge> cy + height - handleSize \<and> py \<le> cy + height + handleSize then Some Hse
         else if px \<ge> cx + handleSize \<and> px \<le> cx + width - handleSize
            \<and> py \<ge> cy - handleSize \<and> py \<le> cy + handleSize then Some Hn
         else if px \<ge> cx + handleSize \<and> px \<le> cx + width - handleSize
            \<and> py \<ge> cy + height - handleSize \<and> py \<le> cy + height + handleSize then Some Hs
         else if px \<ge> cx + width - handleSize \<and> px \<le> cx + width + handleSize
            \<and> py \<ge> cy + handleSize \<and> py \<le> cy + height - handleSize then Some He
         else if px \<ge> cx - handleSize \<and> px \<le> cx + handleSize
            \<and> py \<ge> cy + handleSize \<and> py \<le> cy + height - handleSize then Some Hw
         else None)"

definition handleMouseDown :: "real \<Rightarrow> real \<Rightarrow> Cropper \<Rightarrow> Cropper" where
  "handleMouseDown px py st =
     (case getResizeHandle st px py of
        Some handle \<Rightarrow> st\<lparr>isResizing := True, resizeHandle := Some handle, dragStart := (px, py)\<rparr>
      | None \<Rightarrow>
          (if px \<ge> ca_x (cropArea st) \<and> px \<le> ca_x (cropArea st) + ca_width (cropArea st)
              \<and> py \<ge> ca_y (cropArea st) \<and> py \<le> ca_y (cropArea st) + ca_height (cropArea st)
           then st\<lparr>isDragging := True, dragStart := (px, py)\<rparr>
           else st\<lparr>dragStart := (px, py)\<rparr>))"

text \<open>
  The \<open>switch\<close> of \<open>handleMouseMove\<close> on the handle being dragged: \<open>newArea\<close> starts as a copy
  of \<open>prev\<close> and each case assigns the fields it names.
\<close>

fun resizeArea :: "ResizeHandle \<Rightarrow> real \<Rightarrow> real \<Rightarrow> real \<Rightarrow> real \<Rightarrow> CropArea \<Rightarrow> CropArea" where
  "resizeArea Hnw deltaX deltaY cw ch prev =
     prev\<lparr>ca_x := max 0 (min (ca_x prev + deltaX) (ca_x prev + ca_width prev - 50)),
          ca_y := max 0 (min (ca_y prev + deltaY) (ca_y prev + ca_height prev - 50)),
          ca_width := max 50 (ca_width prev - deltaX),
          ca_height := max 50 (ca_height prev - deltaY)\<rparr>"
| "resizeArea Hne deltaX deltaY cw ch prev =
     prev\<lparr>ca_y := max 0 (min (ca_y prev + deltaY) (ca_y prev + ca_height prev - 50)),
          ca_width := max 50 (min (ca_width prev + deltaX) (cw - ca_x prev)),
          ca_height := max 50 (ca_height prev - deltaY)\<rparr>"
| "resizeArea Hsw deltaX deltaY cw ch prev =
     prev\<lparr>ca_x := max 0 (min (ca_x prev + deltaX) (ca_x prev + ca_width prev - 50)),
          ca_width := max 50 (ca_width prev - deltaX),
          ca_height := max 50 (min (ca_height prev + deltaY) (ch - ca_y prev))\<rparr>"
| "resizeArea Hse deltaX deltaY cw ch prev =
     prev\<lparr>ca_width := max 50 (min (ca_width prev + deltaX) (cw - ca_x prev)),
          ca_height := max 50 (min (ca_height prev + deltaY) (ch - ca_y prev))\<rparr>"
| "resizeArea Hn deltaX deltaY cw ch prev =
     prev\<lparr>ca_y := max 0 (min (ca_y prev + deltaY) (ca_y prev + ca_height prev - 50)),
          ca_height := max 50 (ca_height prev - deltaY)\<rparr>"
| "resizeArea Hs deltaX deltaY cw ch prev =
     prev\<lparr>ca_height := max 50 (min (ca_height prev + deltaY) (ch - ca_y prev))\<rparr>"
| "resizeArea He deltaX deltaY cw ch prev =
     prev\<lparr>ca_width := max 50 (min (ca_width prev + deltaX) (cw - ca_x prev))\<rparr>"
| "resizeArea Hw deltaX deltaY cw ch prev =
     prev\<lparr>ca_x := max 0 (min (ca_x prev + deltaX) (ca_x prev + ca_width prev - 50)),
          ca_width := max 50 (ca_width prev - deltaX)\<rparr>"

text \<open>The update of the drag branch of \<open>handleMouseMove\<close>.\<close>

definition dragArea :: "real \<Rightarrow> real \<Rightarrow> real \<Rightarrow> real \<Rightarrow> CropArea \<Rightarrow> CropArea" where
  "dragArea deltaX deltaY cw ch prev =
     prev\<lparr>ca_x := max 0 (min (ca_x prev + deltaX) (cw - ca_width prev)),
          ca_y := max 0 (min (ca_y prev + deltaY) (ch - ca_height prev))\<rparr>"

text \<open>
  \<open>handleMouseMove\<close>, one event per render: the deltas are taken from \<open>dragStart\<close>, the crop
  area is resized when \<open>isResizing && resizeHandle\<close>, dragged when \<open>isDragging\<close>, and
  \<open>dragStart\<close> becomes the position of the pointer.
\<close>

definition handleMouseMove :: "real \<Rightarrow> real \<Rightarrow> Cropper \<Rightarrow> Cropper" where
  "handleMouseMove px py st =
     (let deltaX = px - fst (dragStart st); deltaY = py - snd (dragStart st);
          st1 = (case (isResizing st, resizeHandle st) of
                   (True, Some handle) \<Rightarrow>
                     st\<lparr>cropArea := resizeArea handle deltaX deltaY
                                      (canvasWidth st) (canvasHeight st) (cropArea st)\<rparr>
                 | _ \<Rightarrow>
                     (if isDragging st
                      then st\<lparr>cropArea := dragArea deltaX deltaY
                                            (canvasWidth st) (canvasHeight st) (cropArea st)\<rparr>
                      else st))
      in st1\<lparr>dragStart := (px, py)\<rparr>)"

definition handleMouseUp :: "Cropper \<Rightarrow> Cropper" where
  "handleMouseUp st = st\<lparr>isDragging := False, isResizing := False, resizeHandle := None\<rparr>"

definition resetCrop :: "Cropper \<Rightarrow> Cropper" where
  "resetCrop st = st\<lparr>cropArea := initialCropArea (canvasWidth st) (canvasHeight st)\<rparr>"

text \<open>
  The events the component reacts to. A touch start calls \<open>setIsTouch(true)\<close> and then
  \<open>handleMouseDown\<close>, which still reads the handle size of the current render.
\<close>

datatype Event =
    MouseDown real real | MouseMove real real | MouseUp | MouseLeave
  | TouchStart real real | TouchMove real real | TouchEnd
  | RotateLeft | RotateRight | ResetCrop

fun handleEvent :: "Cropper \<Rightarrow> Event \<Rightarrow> Cropper" where
  "handleEvent st (MouseDown px py) = handleMouseDown px py st"
| "handleEvent st (MouseMove px py) = handleMouseMove px py st"
| "handleEvent st MouseUp = handleMouseUp st"
| "handleEvent st MouseLeave = handleMouseUp st"
| "handleEvent st (TouchStart px py) = (handleMouseDown px py st)\<lparr>isTouch := True\<rparr>"
| "handleEvent st (TouchMove px py) = handleMouseMove px py st"
| "handleEvent st TouchEnd = handleMouseUp st"
| "handleEvent st RotateLeft = st\<lparr>rotation := (rotation st + 360 - 90) mod 360\<rparr>"
| "handleEvent st RotateRight = st\<lparr>rotation := (rotation st + 90) mod 360\<rparr>"
| "handleEvent st ResetCrop = resetCrop st"

section \<open>Crop extraction (handleCrop, two implementations)\<close>

subsection \<open>Double precision arithmetic\<close>

text \<open>
  The crop extraction multiplies and divides pixel coordinates by scale factors and rounds
  the results with \<open>Math.round\<close>, so the rounding of each operation to a double matters
  there. \<open>toDouble\<close> rounds a real number to the nearest number with a significand of 53
  bits, ties to the even significand. The exponent range is not bounded: pixel coordinates
  and scale factors are far from overflow and from the subnormal numbers.

  \<open>binaryExponent v\<close> is the exponent \<open>e\<close> with \<open>2 ^ e <= |v| < 2 ^ (e + 1)\<close>, computed from
  the number of bits of the integer part of \<open>|v|\<close>, or of \<open>1 / |v|\<close> when \<open>|v| < 1\<close>.
\<close>

definition roundHalfEven :: "real \<Rightarrow> int" where
  "roundHalfEven v =
     (if v - real_of_int \<lfloor>v\<rfloor> < 1 / 2 then \<lfloor>v\<rfloor>
      else if v - real_of_int \<lfloor>v\<rfloor> > 1 / 2 then \<lfloor>v\<rfloor> + 1
      else if even \<lfloor>v\<rfloor> then \<lfloor>v\<rfloor> else \<lfloor>v\<rfloor> + 1)"

definition binaryExponent :: "real \<Rightarrow> int" where
  "binaryExponent v =
     (if 1 \<le> \<bar>v\<bar> then bitlen \<lfloor>\<bar>v\<bar>\<rfloor> - 1 else - bitlen (\<lceil>1 / \<bar>v\<bar>\<rceil> - 1))"

definition toDouble :: "real \<Rightarrow> real" where
  "toDouble v =
     (if v = 0 then 0
      else if 52 \<le> binaryExponent v
      then real_of_int (roundHalfEven (v / 2 ^ nat (binaryExponent v - 52)))
             * 2 ^ nat (binaryExponent v - 52)
      else real_of_int (roundHalfEven (v * 2 ^ nat (52 - binaryExponent v)))
             / 2 ^ nat (52 - binaryExponent v))"

text \<open>The operators \<open>*\<close>, \<open>/\<close>, \<open>+\<close> and \<open>-\<close> of JavaScript on numbers.\<close>

definition jsMul :: "real \<Rightarrow> real \<Rightarrow> real" where
  "jsMul a b = toDouble (a * b)"

definition jsDiv :: "real \<Rightarrow> real \<Rightarrow> real" where
  "jsDiv a b = toDouble (a / b)"

definition jsAdd :: "real \<Rightarrow> real \<Rightarrow> real" where
  "jsAdd a b = toDouble (a + b)"

definition jsSub :: "real \<Rightarrow> real \<Rightarrow> real" where
  "jsSub a b = toDouble (a - b)"

text \<open>\<open>Math.round\<close>: the nearest integer, halves towards \<open>+\<infinity>\<close>.\<close>

definition jsround :: "real \<Rightarrow> int" where
  "jsround v = \<lfloor>v + 1 / 2\<rfloor>"

subsection \<open>The two implementations\<close>

text \<open>
  What \<open>handleCrop\<close> hands to the drawing surface: the size of the temporary canvas, which is
  the size of the output image, and the source rectangle \<open>(sx, sy, sWidth, sHeight)\<close> passed
  to \<open>drawImage\<close> (\<open>None\<close> when \<open>drawImage\<close> is not called).
\<close>

record CropResult =
  out_width :: int
  out_height :: int
  src_region :: "(int \<times> int \<times> int \<times> int) option"

text \<open>
  \<open>handleCrop\<close> of \<open>ImageCropper.tsx\<close>. The result is \<open>None\<close> when the image is missing (the
  error toast). The offsets at 90 and 270 degrees are differences of integers.
\<close>

definition handleCrop :: "Cropper \<Rightarrow> CropResult option" where
  "handleCrop st =
     (case imageRef st of
        None \<Rightarrow> None
      | Some (iw, ih) \<Rightarrow>
          (let scaleX = jsDiv (real iw) (canvasWidth st);
               scaleY = jsDiv (real ih) (canvasHeight st);
               cropX = jsround (jsMul (ca_x (cropArea st)) scaleX);
               cropY = jsround (jsMul (ca_y (cropArea st)) scaleY);
               cropWidth = jsround (jsMul (ca_width (cropArea st)) scaleX);
               cropHeight = jsround (jsMul (ca_height (cropArea st)) scaleY);
               (sx, sy) =
                 (if rotation st mod 180 \<noteq> 0
                  then (if rotation st = 90 then (cropY, int iw - cropX - cropWidth)
                        else if rotation st = 270 then (int ih - cropY - cropHeight, cropX)
                        else (cropX, cropY))
                  else (cropX, cropY))
           in Some \<lparr>out_width = cropWidth, out_height = cropHeight,
                     src_region = Some (sx, sy, cropWidth, cropHeight)\<rparr>))"

text \<open>
  The second cropper source. Its \<open>drawCanvas\<close>, which runs after the image has loaded and
  after every change of the crop area or of the rotation, sets the canvas to the size of the
  image, width and height swapped at 90 and 270 degrees; it returns at once when there is no
  image.
\<close>

definition drawCanvas2 :: "Cropper \<Rightarrow> Cropper" where
  "drawCanvas2 st =
     (case imageRef st of
        None \<Rightarrow> st
      | Some (iw, ih) \<Rightarrow>
          (if rotation st mod 180 \<noteq> 0
           then st\<lparr>canvasWidth := real ih, canvasHeight := real iw\<rparr>
           else st\<lparr>canvasWidth := real iw, canvasHeight := real ih\<rparr>))"

text \<open>
  \<open>handleCrop\<close> of the second cropper source. The first \<open>switch\<close> computes \<open>sx, sy, sw, sh\<close>
  (with a default case), the temporary canvas gets \<open>sw\<close> by \<open>sh\<close>, and the second \<open>switch\<close>
  (without a default case) calls \<open>drawImage\<close> with \<open>sw, sh\<close> at 0 and 180 degrees and with
  \<open>sh, sw\<close> at 90 and 270 degrees.
\<close>

definition handleCrop2 :: "Cropper \<Rightarrow> CropResult option" where
  "handleCrop2 st =
     (case imageRef st of
        None \<Rightarrow> None
      | Some (iw, ih) \<Rightarrow>
          (let scaleX = jsDiv (real iw) (canvasWidth st);
               scaleY = jsDiv (real ih) (canvasHeight st);
               x = ca_x (cropArea st); y = ca_y (cropArea st);
               width = ca_width (cropArea st); height = ca_height (cropArea st);
               (sx, sy, sw, sh) =
                 (if rotation st = 0
                  then (jsround (jsMul x scaleX), jsround (jsMul y scaleY),
                        jsround (jsMul width scaleX), jsround (jsMul height scaleY))
                  else if rotation st = 90
                  then (jsround (jsMul y scaleY),
                        jsround (jsSub (real iw) (jsMul (jsAdd x width) scaleX)),
                        jsround (jsMul height scaleY), jsround (jsMul width scaleX))
                  else if rotation st = 180
                  then (jsround (jsSub (real iw) (jsMul (jsAdd x width) scaleX)),
                        jsround (jsSub (real ih) (jsMul (jsAdd y height) scaleY)),
                        jsround (jsMul width scaleX), jsround (jsMul height scaleY))
                  else if rotation st = 270
                  then (jsround (jsSub (real ih) (jsMul (jsAdd y height) scaleY)),
                        jsround (jsMul x scaleX),
                        jsround (jsMul height scaleY), jsround (jsMul width scaleX))
                  else (jsround (jsMul x scaleX), jsround (jsMul y scaleY),
                        jsround (jsMul width scaleX), jsround (jsMul height scaleY)))
           in Some \<lparr>out_width = sw, out_height = sh,
                     src_region =
                       (if rotation st = 0 \<or> rotation st = 180 then Some (sx, sy, sw, sh)
                        else if rotation st = 90 \<or> rotation st = 270 then Some (sx, sy, sh, sw)
                        else None)\<rparr>))"

text \<open>
  The invariant of the interaction on a canvas of at least 100 by 100: the crop area is at
  least 50 by 50.
\<close>

definition minSizeInv :: "Cropper \<Rightarrow> bool" where
  "minSizeInv st = (50 \<le> ca_width (cropArea st) \<and> 50 \<le> ca_height (cropArea st)
     \<and> 100 \<le> canvasWidth st \<and> 100 \<le> canvasHeight st)"

section \<open>Properties of the compression search\<close>

subsection \<open>The four cases of \<open>tryCompress\<close>\<close>

lemma tryCompress_null:
  "toBlob quality = None \<Longrightarrow>
   tryCompress toBlob targetKB s lg quality = (Pending, s, lg @ [(s, quality)])"
  by (simp add: tryCompress.simps)

lemma tryCompress_stop:
  "toBlob quality = Some bytes \<Longrightarrow>
   closeEnough targetKB \<lparr>blob_serial = length lg, blob_size = bytes\<rparr> \<or> attempts s \<ge> maxAttempts \<Longrightarrow>
   tryCompress toBlob targetKB s lg quality =
     (Resolved \<lparr>blob_serial = length lg, blob_size = bytes\<rparr>, s, lg @ [(s, quality)])"
  by (subst tryCompress.simps) simp

lemma tryCompress_over:
  "toBlob quality = Some bytes \<Longrightarrow>
   \<not> closeEnough targetKB \<lparr>blob_serial = length lg, blob_size = bytes\<rparr> \<Longrightarrow>
   attempts s < maxAttempts \<Longrightarrow>
   sizeKB \<lparr>blob_serial = length lg, blob_size = bytes\<rparr> > targetKB \<Longrightarrow>
   tryCompress toBlob targetKB s lg quality =
     tryCompress toBlob targetKB (s\<lparr>attempts := attempts s + 1, maxQuality := quality\<rparr>)
       (lg @ [(s, quality)]) ((minQuality s + quality) / 2)"
  by (subst tryCompress.simps) simp

lemma tryCompress_under:
  "toBlob quality = Some bytes \<Longrightarrow>
   \<not> closeEnough targetKB \<lparr>blob_serial = length lg, blob_size = bytes\<rparr> \<Longrightarrow>
   attempts s < maxAttempts \<Longrightarrow>
   \<not> sizeKB \<lparr>blob_serial = length lg, blob_size = bytes\<rparr> > targetKB \<Longrightarrow>
   tryCompress toBlob targetKB s lg quality =
     tryCompress toBlob targetKB
       (s\<lparr>attempts := attempts s + 1, minQuality := quality,
          bestBlob := Some \<lparr>blob_serial = length lg, blob_size = bytes\<rparr>\<rparr>)
       (lg @ [(s, quality)]) ((quality + maxQuality s) / 2)"
  by (subst tryCompress.simps) simp

lemma tryCompress_log_prefix:
  "\<exists>ext. snd (snd (tryCompress toBlob targetKB s lg quality)) = lg @ (s, quality) # ext"
proof (induction toBlob targetKB s lg quality rule: tryCompress.induct)
  case (1 toBlob targetKB s lg quality)
  show ?case
  proof (cases "toBlob quality")
    case None
    then show ?thesis by (simp add: tryCompress_null)
  next
    case (Some bytes)
    let ?b = "\<lparr>blob_serial = length lg, blob_size = bytes\<rparr>"
    show ?thesis
    proof (cases "closeEnough targetKB ?b \<or> attempts s \<ge> maxAttempts")
      case True
      with Some show ?thesis by (simp add: tryCompress_stop)
    next
      case False
      show ?thesis
      proof (cases "sizeKB ?b > targetKB")
        case True
        from "1.IH"(1)[OF Some False True] Some False True
        show ?thesis by (auto simp: tryCompress_over)
      next
        case over: False
        from "1.IH"(2)[OF Some False over] Some False over
        show ?thesis by (auto simp: tryCompress_under)
      qed
    qed
  qed
qed

lemma tryCompress_calls_bound:
  "length (snd (snd (tryCompress toBlob targetKB s lg quality)))
     \<le> length lg + 1 + (maxAttempts - attempts s)"
proof (induction toBlob targetKB s lg quality rule: tryCompress.induct)
  case (1 toBlob targetKB s lg quality)
  show ?case
  proof (cases "toBlob quality")
    case None
    then show ?thesis by (simp add: tryCompress_null)
  next
    case (Some bytes)
    let ?b = "\<lparr>blob_serial = length lg, blob_size = bytes\<rparr>"
    show ?thesis
    proof (cases "closeEnough targetKB ?b \<or> attempts s \<ge> maxAttempts")
      case True
      with Some show ?thesis by (simp add: tryCompress_stop)
    next
      case False
      show ?thesis
      proof (cases "sizeKB ?b > targetKB")
        case True
        from "1.IH"(1)[OF Some False True] Some False True
        show ?thesis by (auto simp: tryCompress_over)
      next
        case over: False
        from "1.IH"(2)[OF Some False over] Some False over
        show ?thesis by (auto simp: tryCompress_under)
      qed
    qed
  qed
qed

lemma tryCompress_resolves:
  "(\<And>q. toBlob q \<noteq> None) \<Longrightarrow>
   \<exists>b. fst (tryCompress toBlob targetKB s lg quality) = Resolved b"
proof (induction toBlob targetKB s lg quality rule: tryCompress.induct)
  case (1 toBlob targetKB s lg quality)
  from "1.prems"[of quality] obtain bytes where Some: "toBlob quality = Some bytes" by auto
  let ?b = "\<lparr>blob_serial = length lg, blob_size = bytes\<rparr>"
  show ?case
  proof (cases "closeEnough targetKB ?b \<or> attempts s \<ge> maxAttempts")
    case True
    with Some show ?thesis by (simp add: tryCompress_stop)
  next
    case False
    show ?thesis
    proof (cases "sizeKB ?b > targetKB")
      case True
      from "1.IH"(1)[OF Some False True "1.prems"] Some False True
      show ?thesis by (auto simp: tryCompress_over)
    next
      case over: False
      from "1.IH"(2)[OF Some False over "1.prems"] Some False over
      show ?thesis by (auto simp: tryCompress_under)
    qed
  qed
qed

lemma tryCompress_result_inv:
  assumes "tryCompress toBlob targetKB s lg quality = (r, s', tr)"
    and "\<And>bb. bestBlob s = Some bb \<Longrightarrow> blob_serial bb < length lg"
  shows "tr \<noteq> [] \<and> length lg < length tr
     \<and> (\<forall>bb. bestBlob s' = Some bb \<longrightarrow> Suc (blob_serial bb) < length tr)
     \<and> (\<forall>b. r = Resolved b \<longrightarrow>
           Suc (blob_serial b) = length tr \<and> toBlob (snd (last tr)) = Some (blob_size b)
           \<and> (closeEnough targetKB b \<or> attempts s' \<ge> maxAttempts))
     \<and> length tr = length lg + 1 + (attempts s' - attempts s)
     \<and> attempts s \<le> attempts s'
     \<and> (attempts s \<le> maxAttempts \<longrightarrow> attempts s' \<le> maxAttempts)"
  using assms
proof (induction toBlob targetKB s lg quality rule: tryCompress.induct)
  case (1 toBlob targetKB s lg quality)
  show ?case
  proof (cases "toBlob quality")
    case None
    with "1.prems" show ?thesis by (auto simp: tryCompress_null)
  next
    case (Some bytes)
    let ?b = "\<lparr>blob_serial = length lg, blob_size = bytes\<rparr>"
    show ?thesis
    proof (cases "closeEnough targetKB ?b \<or> attempts s \<ge> maxAttempts")
      case True
      from Some True "1.prems"(1)
      have eqs: "r = Resolved ?b" "s' = s" "tr = lg @ [(s, quality)]"
        by (auto simp: tryCompress_stop)
      with Some True "1.prems"(2) show ?thesis by auto
    next
      case False
      show ?thesis
      proof (cases "sizeKB ?b > targetKB")
        case True
        let ?s1 = "s\<lparr>attempts := attempts s + 1, maxQuality := quality\<rparr>"
        from False have lt: "attempts s < maxAttempts" by simp
        from Some False lt True "1.prems"(1)
        have run: "tryCompress toBlob targetKB ?s1 (lg @ [(s, quality)]) ((minQuality s + quality) / 2) = (r, s', tr)"
          by (simp add: tryCompress_over)
        have best: "\<And>bb. bestBlob ?s1 = Some bb \<Longrightarrow> blob_serial bb < length (lg @ [(s, quality)])"
          using "1.prems"(2) by fastforce
        from "1.IH"(1)[OF Some False True run best] lt
        show ?thesis by auto
      next
        case under: False
        let ?s1 = "s\<lparr>attempts := attempts s + 1, minQuality := quality, bestBlob := Some ?b\<rparr>"
        from False have lt: "attempts s < maxAttempts" by simp
        from Some False lt under "1.prems"(1)
        have run: "tryCompress toBlob targetKB ?s1 (lg @ [(s, quality)]) ((quality + maxQuality s) / 2) = (r, s', tr)"
          by (simp add: tryCompress_under)
        have best: "\<And>bb. bestBlob ?s1 = Some bb \<Longrightarrow> blob_serial bb < length (lg @ [(s, quality)])"
          by auto
        from "1.IH"(2)[OF Some False under run best] lt
        show ?thesis by auto
      qed
    qed
  qed
qed

subsection \<open>The record of encoder calls\<close>

text \<open>What the call recorded at position i of the trace did.\<close>

lemma tryCompress_entry:
  assumes "tryCompress toBlob targetKB s0 lg q0 = (r, s', tr)"
    and "length lg \<le> i" and "i < length tr" and "tr ! i = (s, q)"
  shows "(case toBlob q of
            None \<Rightarrow> Suc i = length tr \<and> r = Pending
          | Some bytes \<Rightarrow>
              (if closeEnough targetKB \<lparr>blob_serial = i, blob_size = bytes\<rparr> \<or> attempts s \<ge> maxAttempts
               then Suc i = length tr \<and> r = Resolved \<lparr>blob_serial = i, blob_size = bytes\<rparr>
               else if sizeKB \<lparr>blob_serial = i, blob_size = bytes\<rparr> > targetKB
               then Suc i < length tr \<and>
                    tr ! Suc i = (s\<lparr>attempts := attempts s + 1, maxQuality := q\<rparr>, (minQuality s + q) / 2)
               else Suc i < length tr \<and>
                    tr ! Suc i = (s\<lparr>attempts := attempts s + 1, minQuality := q,
                                    bestBlob := Some \<lparr>blob_serial = i, blob_size = bytes\<rparr>\<rparr>,
                                  (q + maxQuality s) / 2)))"
  using assms
proof (induction toBlob targetKB s0 lg q0 rule: tryCompress.induct)
  case (1 toBlob targetKB s0 lg q0)
  show ?case
  proof (cases "toBlob q0")
    case None
    with "1.prems" show ?thesis
      by (auto simp: tryCompress_null nth_append split: if_splits)
  next
    case (Some bytes)
    let ?b = "\<lparr>blob_serial = length lg, blob_size = bytes\<rparr>"
    show ?thesis
    proof (cases "closeEnough targetKB ?b \<or> attempts s0 \<ge> maxAttempts")
      case True
      from Some True "1.prems"(1)
      have eqs: "r = Resolved ?b" "s' = s0" "tr = lg @ [(s0, q0)]"
        by (auto simp: tryCompress_stop)
      with "1.prems" have "i = length lg" "s = s0" "q = q0" by (auto simp: nth_append)
      with eqs Some True show ?thesis by auto
    next
      case False
      from False have lt: "attempts s0 < maxAttempts" by simp
      show ?thesis
      proof (cases "sizeKB ?b > targetKB")
        case True
        let ?s1 = "s0\<lparr>attempts := attempts s0 + 1, maxQuality := q0\<rparr>"
        let ?q1 = "(minQuality s0 + q0) / 2"
        from Some False lt True "1.prems"(1)
        have run: "tryCompress toBlob targetKB ?s1 (lg @ [(s0, q0)]) ?q1 = (r, s', tr)"
          by (simp add: tryCompress_over)
        from tryCompress_log_prefix[of toBlob targetKB ?s1 "lg @ [(s0, q0)]" ?q1] run
        obtain ext where tr: "tr = lg @ (s0, q0) # (?s1, ?q1) # ext" by auto
        show ?thesis
        proof (cases "i = length lg")
          case True
          with tr "1.prems"(4) have "s = s0" "q = q0" by (auto simp: nth_append)
          moreover from tr True have "Suc i < length tr" "tr ! Suc i = (?s1, ?q1)"
            by (auto simp: nth_append)
          ultimately show ?thesis using Some False \<open>sizeKB ?b > targetKB\<close> True by auto
        next
          case False
          with "1.prems"(2) have "length (lg @ [(s0, q0)]) \<le> i" by simp
          from "1.IH"(1)[OF Some \<open>\<not> (closeEnough targetKB ?b \<or> attempts s0 \<ge> maxAttempts)\<close> True run this "1.prems"(3,4)]
          show ?thesis .
        qed
      next
        case under: False
        let ?s1 = "s0\<lparr>attempts := attempts s0 + 1, minQuality := q0, bestBlob := Some ?b\<rparr>"
        let ?q1 = "(q0 + maxQuality s0) / 2"
        from Some False lt under "1.prems"(1)
        have run: "tryCompress toBlob targetKB ?s1 (lg @ [(s0, q0)]) ?q1 = (r, s', tr)"
          by (simp add: tryCompress_under)
        from tryCompress_log_prefix[of toBlob targetKB ?s1 "lg @ [(s0, q0)]" ?q1] run
        obtain ext where tr: "tr = lg @ (s0, q0) # (?s1, ?q1) # ext" by auto
        show ?thesis
        proof (cases "i = length lg")
          case True
          with tr "1.prems"(4) have "s = s0" "q = q0" by (auto simp: nth_append)
          moreover from tr True have "Suc i < length tr" "tr ! Suc i = (?s1, ?q1)"
            by (auto simp: nth_append)
          ultimately show ?thesis using Some False under True by auto
        next
          case False
          with "1.prems"(2) have "length (lg @ [(s0, q0)]) \<le> i" by simp
          from "1.IH"(2)[OF Some \<open>\<not> (closeEnough targetKB ?b \<or> attempts s0 \<ge> maxAttempts)\<close> under run this "1.prems"(3,4)]
          show ?thesis .
        qed
      qed
    qed
  qed
qed

subsection \<open>Number of encoder calls and the value returned\<close>

lemma compressImage_calls_bound:
  "length (snd (snd (compressImage toBlob settings imageFile))) \<le> maxAttempts + 1"
  using tryCompress_calls_bound[of "toBlob imageFile (rescale (imgWidth imageFile) (imgHeight imageFile))
          (''image/'' @ cs_format settings)" "cs_targetSize settings" initialSearch "[]" "cs_quality settings"]
  by (simp add: compressImage_def initialSearch_def)

lemma compressImage_resolves:
  "(\<And>dims type q. toBlob imageFile dims type q \<noteq> None) \<Longrightarrow>
   \<exists>b. fst (compressImage toBlob settings imageFile) = Resolved b"
  unfolding compressImage_def by (rule tryCompress_resolves) simp

text \<open>
  Claim C1: for every source image and every target size, \<open>compressImage\<close> invokes the
  encoder at most \<open>maxAttempts = 10\<close> times and resolves with an encoded blob. The two lemmas
  above give what holds for every input: at most \<open>maxAttempts + 1\<close> calls, and a resolved
  promise when the encoder never returns \<open>null\<close>. The bound is reached: with an encoder whose
  output is always 1024 KB (a lossless format ignores the quality) and a target of 100 KB,
  the search calls the encoder 11 times, because \<open>attempts >= maxAttempts\<close> is tested before
  \<open>attempts\<close> is incremented.
\<close>

theorem compressImage_eleven_encoder_calls:
  "length (snd (snd (compressImage (\<lambda>imageFile dims type q. Some 1048576)
       \<lparr>cs_targetSize = 100, cs_format = ''png'', cs_quality = 4 / 5\<rparr>
       \<lparr>fileName = ''photo.png'', imgWidth = 800, imgHeight = 600,
        compressedBlob = None, compressedSize = None\<rparr>))) = 11
   \<and> maxAttempts = 10"
  by (simp add: compressImage_def tryCompress.simps initialSearch_def closeEnough_def
      sizeKB_def maxAttempts_def)

lemmas search_defs = initialSearch_def closeEnough_def sizeKB_def maxAttempts_def

text \<open>
  Claim C2, as stated, fails at the call made when the attempts are used up. With an encoder
  whose output is always 1024 KB and a target of 100 KB, the eleventh call is made with
  \<open>attempts = 10\<close> at quality \<open>1031 / 10240\<close>; its blob exceeds the target, but \<open>maxQuality\<close>
  keeps the quality of the tenth call and there is no next attempt: the search resolves
  with that blob.
\<close>

theorem tryCompress_exhausted_iteration_keeps_bounds:
  "fst (tryCompress (\<lambda>q. Some 1048576) 100 initialSearch [] (4 / 5))
     = Resolved \<lparr>blob_serial = 10, blob_size = 1048576\<rparr>
   \<and> length (snd (snd (tryCompress (\<lambda>q. Some 1048576) 100 initialSearch [] (4 / 5)))) = 11
   \<and> last (snd (snd (tryCompress (\<lambda>q. Some 1048576) 100 initialSearch [] (4 / 5))))
       = (\<lparr>minQuality = 1 / 10, maxQuality = 519 / 5120, bestBlob = None, attempts = 10\<rparr>,
          1031 / 10240)
   \<and> sizeKB \<lparr>blob_serial = 10, blob_size = 1048576\<rparr> > 100
   \<and> fst (snd (tryCompress (\<lambda>q. Some 1048576) 100 initialSearch [] (4 / 5)))
       = \<lparr>minQuality = 1 / 10, maxQuality = 519 / 5120, bestBlob = None, attempts = 10\<rparr>
   \<and> maxQuality (fst (snd (tryCompress (\<lambda>q. Some 1048576) 100 initialSearch [] (4 / 5))))
       \<noteq> 1031 / 10240"
  by (simp add: tryCompress.simps search_defs)

text \<open>
  Claim C2, amended: in every iteration of the search that has attempts left (\<open>attempts <
  maxAttempts\<close> when the blob arrives), for every value of the shared variables \<open>s\<close>, every
  record \<open>lg\<close> of earlier calls and every quality \<open>q\<close> at which the encoder gives \<open>bytes\<close>
  bytes: a blob over the target and outside the tolerance sets \<open>maxQuality\<close> to \<open>q\<close> and the
  search continues with the call at \<open>(minQuality + q) / 2\<close>; a blob under the target and
  outside the tolerance sets \<open>minQuality\<close> to \<open>q\<close>, stores the blob in \<open>bestBlob\<close> and the
  search continues with the call at \<open>(q + maxQuality) / 2\<close>; in both cases the next call is
  the next entry of the record of encoder calls. A blob within 10 percent of the target stops
  the search, which resolves with that blob, whatever the number of attempts. The witness
  runs the scenario of the claim (target 100 KB, 250 KB at quality 0.8, then 90 KB at
  quality 0.45) and a run whose first blob is under the target (50 KB at 0.8, then 95 KB at
  0.9).
\<close>

theorem tryCompress_iteration:
  assumes "toBlob q = Some bytes"
  shows "(closeEnough targetKB \<lparr>blob_serial = length lg, blob_size = bytes\<rparr> \<longrightarrow>
            tryCompress toBlob targetKB s lg q
              = (Resolved \<lparr>blob_serial = length lg, blob_size = bytes\<rparr>, s, lg @ [(s, q)]))
       \<and> (\<not> closeEnough targetKB \<lparr>blob_serial = length lg, blob_size = bytes\<rparr>
            \<and> attempts s < maxAttempts
            \<and> sizeKB \<lparr>blob_serial = length lg, blob_size = bytes\<rparr> > targetKB \<longrightarrow>
            tryCompress toBlob targetKB s lg q
              = tryCompress toBlob targetKB (s\<lparr>attempts := attempts s + 1, maxQuality := q\<rparr>)
                  (lg @ [(s, q)]) ((minQuality s + q) / 2)
            \<and> (\<exists>ext. snd (snd (tryCompress toBlob targetKB s lg q))
                  = lg @ (s, q)
                      # (s\<lparr>attempts := attempts s + 1, maxQuality := q\<rparr>, (minQuality s + q) / 2)
                      # ext))
       \<and> (\<not> closeEnough targetKB \<lparr>blob_serial = length lg, blob_size = bytes\<rparr>
            \<and> attempts s < maxAttempts
            \<and> sizeKB \<lparr>blob_serial = length lg, blob_size = bytes\<rparr> < targetKB \<longrightarrow>
            tryCompress toBlob targetKB s lg q
              = tryCompress toBlob targetKB
                  (s\<lparr>attempts := attempts s + 1, minQuality := q,
                     bestBlob := Some \<lparr>blob_serial = length lg, blob_size = bytes\<rparr>\<rparr>)
                  (lg @ [(s, q)]) ((q + maxQuality s) / 2)
            \<and> (\<exists>ext. snd (snd (tryCompress toBlob targetKB s lg q))
                  = lg @ (s, q)
                      # (s\<lparr>attempts := attempts s + 1, minQuality := q,
                           bestBlob := Some \<lparr>blob_serial = length lg, blob_size = bytes\<rparr>\<rparr>,
                         (q + maxQuality s) / 2)
                      # ext))"
proof -
  let ?b = "\<lparr>blob_serial = length lg, blob_size = bytes\<rparr>"
  let ?so = "s\<lparr>attempts := attempts s + 1, maxQuality := q\<rparr>"
  let ?su = "s\<lparr>attempts := attempts s + 1, minQuality := q, bestBlob := Some ?b\<rparr>"
  have stop: "tryCompress toBlob targetKB s lg q = (Resolved ?b, s, lg @ [(s, q)])"
    if "closeEnough targetKB ?b"
    using assms that by (simp add: tryCompress_stop)
  have over: "tryCompress toBlob targetKB s lg q
      = tryCompress toBlob targetKB ?so (lg @ [(s, q)]) ((minQuality s + q) / 2)"
    if "\<not> closeEnough targetKB ?b" "attempts s < maxAttempts" "sizeKB ?b > targetKB"
    using assms that by (simp add: tryCompress_over)
  have under: "tryCompress toBlob targetKB s lg q
      = tryCompress toBlob targetKB ?su (lg @ [(s, q)]) ((q + maxQuality s) / 2)"
    if "\<not> closeEnough targetKB ?b" "attempts s < maxAttempts" "sizeKB ?b < targetKB"
    using assms that by (simp add: tryCompress_under)
  have over_tr: "\<exists>ext. snd (snd (tryCompress toBlob targetKB s lg q))
      = lg @ (s, q) # (?so, (minQuality s + q) / 2) # ext"
    if "\<not> closeEnough targetKB ?b" "attempts s < maxAttempts" "sizeKB ?b > targetKB"
    using tryCompress_log_prefix[of toBlob targetKB ?so "lg @ [(s, q)]" "(minQuality s + q) / 2"]
      over[OF that] by simp
  have under_tr: "\<exists>ext. snd (snd (tryCompress toBlob targetKB s lg q))
      = lg @ (s, q) # (?su, (q + maxQuality s) / 2) # ext"
    if "\<not> closeEnough targetKB ?b" "attempts s < maxAttempts" "sizeKB ?b < targetKB"
    using tryCompress_log_prefix[of toBlob targetKB ?su "lg @ [(s, q)]" "(q + maxQuality s) / 2"]
      under[OF that] by simp
  from stop over under over_tr under_tr show ?thesis by blast
qed


theorem tryCompress_iteration_witness:
  "tryCompress (\<lambda>q. if q = 4 / 5 then Some 256000 else if q = 9 / 20 then Some 92160 else None)
      100 initialSearch [] (4 / 5)
     = (Resolved \<lparr>blob_serial = 1, blob_size = 92160\<rparr>,
        initialSearch\<lparr>attempts := 1, maxQuality := 4 / 5\<rparr>,
        [(initialSearch, 4 / 5), (initialSearch\<lparr>attempts := 1, maxQuality := 4 / 5\<rparr>, 9 / 20)])
   \<and> minQuality initialSearch = 1 / 10 \<and> maxQuality initialSearch = 1
   \<and> sizeKB \<lparr>blob_serial = 0, blob_size = 256000\<rparr> = 250
   \<and> \<not> closeEnough 100 \<lparr>blob_serial = 0, blob_size = 256000\<rparr>
   \<and> sizeKB \<lparr>blob_serial = 1, blob_size = 92160\<rparr> = 90
   \<and> closeEnough 100 \<lparr>blob_serial = 1, blob_size = 92160\<rparr>
   \<and> tryCompress (\<lambda>q. if q = 4 / 5 then Some 256000 else if q = 9 / 20 then Some 92160 else None)
        100 initialSearch [] (4 / 5)
       = tryCompress (\<lambda>q. if q = 4 / 5 then Some 256000 else if q = 9 / 20 then Some 92160 else None)
           100 (initialSearch\<lparr>attempts := attempts initialSearch + 1, maxQuality := 4 / 5\<rparr>)
           ([] @ [(initialSearch, 4 / 5)]) ((minQuality initialSearch + 4 / 5) / 2)
   \<and> (minQuality initialSearch + 4 / 5) / 2 = 9 / 20
   \<and> tryCompress (\<lambda>q. if q = 4 / 5 then Some 51200 else if q = 9 / 10 then Some 97280 else None)
        100 initialSearch [] (4 / 5)
       = (Resolved \<lparr>blob_serial = 1, blob_size = 97280\<rparr>,
          initialSearch\<lparr>attempts := 1, minQuality := 4 / 5,
                          bestBlob := Some \<lparr>blob_serial = 0, blob_size = 51200\<rparr>\<rparr>,
          [(initialSearch, 4 / 5),
           (initialSearch\<lparr>attempts := 1, minQuality := 4 / 5,
                           bestBlob := Some \<lparr>blob_serial = 0, blob_size = 51200\<rparr>\<rparr>, 9 / 10)])
   \<and> sizeKB \<lparr>blob_serial = 0, blob_size = 51200\<rparr> = 50
   \<and> \<not> closeEnough 100 \<lparr>blob_serial = 0, blob_size = 51200\<rparr>
   \<and> tryCompress (\<lambda>q. if q = 4 / 5 then Some 51200 else if q = 9 / 10 then Some 97280 else None)
        100 initialSearch [] (4 / 5)
       = tryCompress (\<lambda>q. if q = 4 / 5 then Some 51200 else if q = 9 / 10 then Some 97280 else None)
           100 (initialSearch\<lparr>attempts := attempts initialSearch + 1, minQuality := 4 / 5,
                  bestBlob := Some \<lparr>blob_serial = length ([] :: (search \<times> real) list),
                                      blob_size = 51200\<rparr>\<rparr>)
           ([] @ [(initialSearch, 4 / 5)]) ((4 / 5 + maxQuality initialSearch) / 2)
   \<and> (4 / 5 + maxQuality initialSearch) / 2 = 9 / 10"
proof -
  let ?encA = "\<lambda>q::real. if q = 4 / 5 then Some (256000::nat) else if q = 9 / 20 then Some 92160 else None"
  let ?encB = "\<lambda>q::real. if q = 4 / 5 then Some (51200::nat) else if q = 9 / 10 then Some 97280 else None"
  let ?sA = "initialSearch\<lparr>attempts := 1, maxQuality := 4 / 5\<rparr>"
  let ?sB = "initialSearch\<lparr>attempts := 1, minQuality := 4 / 5,
                          bestBlob := Some \<lparr>blob_serial = 0, blob_size = 51200\<rparr>\<rparr>"
  have runA: "tryCompress ?encA 100 initialSearch [] (4 / 5)
     = (Resolved \<lparr>blob_serial = 1, blob_size = 92160\<rparr>, ?sA,
        [(initialSearch, 4 / 5), (?sA, 9 / 20)])"
    by (simp add: tryCompress.simps search_defs)
  have runB: "tryCompress ?encB 100 initialSearch [] (4 / 5)
     = (Resolved \<lparr>blob_serial = 1, blob_size = 97280\<rparr>, ?sB,
        [(initialSearch, 4 / 5), (?sB, 9 / 10)])"
    by (simp add: tryCompress.simps search_defs)
  have facts: "minQuality initialSearch = 1 / 10" "maxQuality initialSearch = 1"
    "sizeKB \<lparr>blob_serial = 0, blob_size = 256000\<rparr> = 250"
    "\<not> closeEnough 100 \<lparr>blob_serial = 0, blob_size = 256000\<rparr>"
    "sizeKB \<lparr>blob_serial = 1, blob_size = 92160\<rparr> = 90"
    "closeEnough 100 \<lparr>blob_serial = 1, blob_size = 92160\<rparr>"
    "sizeKB \<lparr>blob_serial = 0, blob_size = 51200\<rparr> = 50"
    "\<not> closeEnough 100 \<lparr>blob_serial = 0, blob_size = 51200\<rparr>"
    "attempts initialSearch < maxAttempts"
    "(minQuality initialSearch + 4 / 5) / 2 = 9 / 20"
    "(4 / 5 + maxQuality initialSearch) / 2 = 9 / 10"
    by (simp_all add: search_defs)
  have a: "?encA (4 / 5) = Some 256000" and b: "?encB (4 / 5) = Some 51200" by simp_all
  have hA: "\<not> closeEnough 100 \<lparr>blob_serial = length ([] :: (search \<times> real) list), blob_size = 256000\<rparr>
      \<and> attempts initialSearch < maxAttempts
      \<and> sizeKB \<lparr>blob_serial = length ([] :: (search \<times> real) list), blob_size = 256000\<rparr> > 100"
    by (simp add: search_defs)
  have hB: "\<not> closeEnough 100 \<lparr>blob_serial = length ([] :: (search \<times> real) list), blob_size = 51200\<rparr>
      \<and> attempts initialSearch < maxAttempts
      \<and> sizeKB \<lparr>blob_serial = length ([] :: (search \<times> real) list), blob_size = 51200\<rparr> < 100"
    by (simp add: search_defs)
  have stepA: "tryCompress ?encA 100 initialSearch [] (4 / 5)
       = tryCompress ?encA 100 (initialSearch\<lparr>attempts := attempts initialSearch + 1, maxQuality := 4 / 5\<rparr>)
           ([] @ [(initialSearch, 4 / 5)]) ((minQuality initialSearch + 4 / 5) / 2)"
    using tryCompress_iteration[of ?encA "4 / 5" 256000 100 "[]" initialSearch, OF a] hA
    by blast
  have stepB: "tryCompress ?encB 100 initialSearch [] (4 / 5)
       = tryCompress ?encB 100 (initialSearch\<lparr>attempts := attempts initialSearch + 1, minQuality := 4 / 5,
                  bestBlob := Some \<lparr>blob_serial = length ([] :: (search \<times> real) list),
                                      blob_size = 51200\<rparr>\<rparr>)
           ([] @ [(initialSearch, 4 / 5)]) ((4 / 5 + maxQuality initialSearch) / 2)"
    using tryCompress_iteration[of ?encB "4 / 5" 51200 100 "[]" initialSearch, OF b] hB
    by blast
  from runA runB facts stepA stepB show ?thesis by blast
qed

text \<open>
  Two facts about whole runs. A run of \<open>compressImage\<close> that resolves does so with the blob of
  its last encoder call, which is not the one held in \<open>bestBlob\<close>; and at every call of a
  run \<open>bestBlob\<close> holds a blob of an earlier call, which is the hypothesis of the next
  theorem.
\<close>

lemma tryCompress_resolved_is_last:
  assumes "tryCompress toBlob targetKB initialSearch [] q0 = (Resolved b, s', tr)"
  shows "tr \<noteq> [] \<and> toBlob (snd (last tr)) = Some (blob_size b)
       \<and> Suc (blob_serial b) = length tr
       \<and> bestBlob s' \<noteq> Some b
       \<and> (closeEnough targetKB b \<or> attempts s' = maxAttempts \<and> length tr = maxAttempts + 1)"
proof -
  have "\<And>bb. bestBlob initialSearch = Some bb \<Longrightarrow> blob_serial bb < length ([] :: (search \<times> real) list)"
    by (simp add: initialSearch_def)
  from tryCompress_result_inv[OF assms this]
  show ?thesis by (auto simp: initialSearch_def)
qed

lemma tryCompress_entry_best:
  assumes "tryCompress toBlob targetKB s0 lg q0 = (r, s', tr)"
    and "\<And>bb. bestBlob s0 = Some bb \<Longrightarrow> blob_serial bb < length lg"
    and "length lg \<le> i" and "i < length tr" and "tr ! i = (s, q)" and "bestBlob s = Some bb"
  shows "blob_serial bb < i"
  using assms
proof (induction toBlob targetKB s0 lg q0 rule: tryCompress.induct)
  case (1 toBlob targetKB s0 lg q0)
  from tryCompress_log_prefix[of toBlob targetKB s0 lg q0] "1.prems"(1)
  obtain ext where tr: "tr = lg @ (s0, q0) # ext" by auto
  show ?case
  proof (cases "i = length lg")
    case True
    with tr "1.prems"(5) have "s = s0" by (simp add: nth_append)
    with "1.prems"(2,6) True show ?thesis by simp
  next
    case False
    with "1.prems"(3) have i: "length (lg @ [(s0, q0)]) \<le> i" by simp
    show ?thesis
    proof (cases "toBlob q0")
      case None
      with "1.prems"(1) have "tr = lg @ [(s0, q0)]" by (auto simp: tryCompress_null)
      with i "1.prems"(4) show ?thesis by simp
    next
      case (Some bytes)
      let ?b = "\<lparr>blob_serial = length lg, blob_size = bytes\<rparr>"
      show ?thesis
      proof (cases "closeEnough targetKB ?b \<or> attempts s0 \<ge> maxAttempts")
        case True
        with Some "1.prems"(1) have "tr = lg @ [(s0, q0)]" by (auto simp: tryCompress_stop)
        with i "1.prems"(4) show ?thesis by simp
      next
        case stop: False
        then have lt: "attempts s0 < maxAttempts" by simp
        show ?thesis
        proof (cases "sizeKB ?b > targetKB")
          case True
          let ?s1 = "s0\<lparr>attempts := attempts s0 + 1, maxQuality := q0\<rparr>"
          from Some stop lt True "1.prems"(1)
          have run: "tryCompress toBlob targetKB ?s1 (lg @ [(s0, q0)]) ((minQuality s0 + q0) / 2) = (r, s', tr)"
            by (simp add: tryCompress_over)
          have best: "\<And>bb. bestBlob ?s1 = Some bb \<Longrightarrow> blob_serial bb < length (lg @ [(s0, q0)])"
            using "1.prems"(2) by fastforce
          from "1.IH"(1)[OF Some stop True run best i "1.prems"(4,5,6)] show ?thesis .
        next
          case under: False
          let ?s1 = "s0\<lparr>attempts := attempts s0 + 1, minQuality := q0, bestBlob := Some ?b\<rparr>"
          from Some stop lt under "1.prems"(1)
          have run: "tryCompress toBlob targetKB ?s1 (lg @ [(s0, q0)]) ((q0 + maxQuality s0) / 2) = (r, s', tr)"
            by (simp add: tryCompress_under)
          have best: "\<And>bb. bestBlob ?s1 = Some bb \<Longrightarrow> blob_serial bb < length (lg @ [(s0, q0)])"
            by auto
          from "1.IH"(2)[OF Some stop under run best i "1.prems"(4,5,6)] show ?thesis .
        qed
      qed
    qed
  qed
qed

text \<open>
  Claim C3: a call made when the attempts are used up (\<open>attempts >= maxAttempts\<close>), whose blob
  is not within the tolerance, resolves the promise with the blob of that call. The result
  is the same whatever \<open>bestBlob\<close> holds, and \<open>bestBlob\<close>, holding a blob of an earlier call
  as it does at every call of a run, is not the blob returned. The witness takes the
  exhausted call of two runs from the
  initial state, one with every blob over the target (\<open>bestBlob\<close> is \<open>null\<close>) and one with
  every blob under it (\<open>bestBlob\<close> is the blob of the tenth call, the result that of the
  eleventh).
\<close>

theorem tryCompress_exhausted_returns_last:
  assumes "maxAttempts \<le> attempts s" and "toBlob q = Some bytes"
    and "\<not> closeEnough targetKB \<lparr>blob_serial = length lg, blob_size = bytes\<rparr>"
  shows "tryCompress toBlob targetKB s lg q
           = (Resolved \<lparr>blob_serial = length lg, blob_size = bytes\<rparr>, s, lg @ [(s, q)])
       \<and> (\<forall>best. fst (tryCompress toBlob targetKB (s\<lparr>bestBlob := best\<rparr>) lg q)
             = Resolved \<lparr>blob_serial = length lg, blob_size = bytes\<rparr>)
       \<and> ((\<forall>bb. bestBlob s = Some bb \<longrightarrow> blob_serial bb < length lg) \<longrightarrow>
            bestBlob s \<noteq> Some \<lparr>blob_serial = length lg, blob_size = bytes\<rparr>)"
proof -
  have 1: "tryCompress toBlob targetKB s lg q
           = (Resolved \<lparr>blob_serial = length lg, blob_size = bytes\<rparr>, s, lg @ [(s, q)])"
    using assms(1,2) by (simp add: tryCompress_stop)
  have 2: "bestBlob s \<noteq> Some \<lparr>blob_serial = length lg, blob_size = bytes\<rparr>"
    if "\<forall>bb. bestBlob s = Some bb \<longrightarrow> blob_serial bb < length lg"
    using that by auto
  have 3: "fst (tryCompress toBlob targetKB (s\<lparr>bestBlob := best\<rparr>) lg q)
             = Resolved \<lparr>blob_serial = length lg, blob_size = bytes\<rparr>" for best
    using assms(1,2) by (simp add: tryCompress_stop)
  from 1 2 3 show ?thesis by blast
qed

theorem tryCompress_exhausted_returns_last_witness:
  "tryCompress (\<lambda>q. Some 1048576) 100
      \<lparr>minQuality = 1 / 10, maxQuality = 519 / 5120, bestBlob = None, attempts = 10\<rparr>
      (butlast (snd (snd (tryCompress (\<lambda>q. Some 1048576) 100 initialSearch [] (4 / 5)))))
      (1031 / 10240)
     = (Resolved \<lparr>blob_serial = 10, blob_size = 1048576\<rparr>,
        \<lparr>minQuality = 1 / 10, maxQuality = 519 / 5120, bestBlob = None, attempts = 10\<rparr>,
        snd (snd (tryCompress (\<lambda>q. Some 1048576) 100 initialSearch [] (4 / 5))))
   \<and> tryCompress (\<lambda>q. Some 1048576) 100 initialSearch [] (4 / 5)
     = (Resolved \<lparr>blob_serial = 10, blob_size = 1048576\<rparr>,
        \<lparr>minQuality = 1 / 10, maxQuality = 519 / 5120, bestBlob = None, attempts = 10\<rparr>,
        snd (snd (tryCompress (\<lambda>q. Some 1048576) 100 initialSearch [] (4 / 5))))
   \<and> last (snd (snd (tryCompress (\<lambda>q. Some 1048576) 100 initialSearch [] (4 / 5))))
     = (\<lparr>minQuality = 1 / 10, maxQuality = 519 / 5120, bestBlob = None, attempts = 10\<rparr>,
        1031 / 10240)
   \<and> \<not> closeEnough 100 \<lparr>blob_serial = 10, blob_size = 1048576\<rparr>
   \<and> tryCompress (\<lambda>q. Some 1024) 100
      \<lparr>minQuality = 2559 / 2560, maxQuality = 1,
       bestBlob = Some \<lparr>blob_serial = 9, blob_size = 1024\<rparr>, attempts = 10\<rparr>
      (butlast (snd (snd (tryCompress (\<lambda>q. Some 1024) 100 initialSearch [] (4 / 5)))))
      (5119 / 5120)
     = (Resolved \<lparr>blob_serial = 10, blob_size = 1024\<rparr>,
        \<lparr>minQuality = 2559 / 2560, maxQuality = 1,
         bestBlob = Some \<lparr>blob_serial = 9, blob_size = 1024\<rparr>, attempts = 10\<rparr>,
        snd (snd (tryCompress (\<lambda>q. Some 1024) 100 initialSearch [] (4 / 5))))
   \<and> tryCompress (\<lambda>q. Some 1024) 100 initialSearch [] (4 / 5)
     = (Resolved \<lparr>blob_serial = 10, blob_size = 1024\<rparr>,
        \<lparr>minQuality = 2559 / 2560, maxQuality = 1,
         bestBlob = Some \<lparr>blob_serial = 9, blob_size = 1024\<rparr>, attempts = 10\<rparr>,
        snd (snd (tryCompress (\<lambda>q. Some 1024) 100 initialSearch [] (4 / 5))))
   \<and> last (snd (snd (tryCompress (\<lambda>q. Some 1024) 100 initialSearch [] (4 / 5))))
     = (\<lparr>minQuality = 2559 / 2560, maxQuality = 1,
         bestBlob = Some \<lparr>blob_serial = 9, blob_size = 1024\<rparr>, attempts = 10\<rparr>,
        5119 / 5120)
   \<and> \<not> closeEnough 100 \<lparr>blob_serial = 10, blob_size = 1024\<rparr>
   \<and> Some \<lparr>blob_serial = 9, blob_size = 1024\<rparr> \<noteq> Some \<lparr>blob_serial = 10, blob_size = 1024\<rparr>"
proof -
  let ?encO = "\<lambda>q::real. Some (1048576::nat)"
  let ?encU = "\<lambda>q::real. Some (1024::nat)"
  let ?RO = "tryCompress ?encO 100 initialSearch [] (4 / 5)"
  let ?RU = "tryCompress ?encU 100 initialSearch [] (4 / 5)"
  let ?sO = "\<lparr>minQuality = 1 / 10, maxQuality = 519 / 5120, bestBlob = None, attempts = 10\<rparr>"
  let ?sU = "\<lparr>minQuality = 2559 / 2560, maxQuality = 1,
       bestBlob = Some \<lparr>blob_serial = 9, blob_size = 1024\<rparr>, attempts = 10\<rparr>"
  have o: "fst ?RO = Resolved \<lparr>blob_serial = 10, blob_size = 1048576\<rparr>" "fst (snd ?RO) = ?sO"
    "last (snd (snd ?RO)) = (?sO, 1031 / 10240)" "length (snd (snd ?RO)) = 11"
    by (simp_all add: tryCompress.simps search_defs)
  have u: "fst ?RU = Resolved \<lparr>blob_serial = 10, blob_size = 1024\<rparr>" "fst (snd ?RU) = ?sU"
    "last (snd (snd ?RU)) = (?sU, 5119 / 5120)" "length (snd (snd ?RU)) = 11"
    by (simp_all add: tryCompress.simps search_defs)
  from o(4) have neO: "snd (snd ?RO) \<noteq> []" by auto
  from u(4) have neU: "snd (snd ?RU) \<noteq> []" by auto
  have lgO: "butlast (snd (snd ?RO)) @ [(?sO, 1031 / 10240)] = snd (snd ?RO)"
    using append_butlast_last_id[OF neO] o(3) by simp
  have lgU: "butlast (snd (snd ?RU)) @ [(?sU, 5119 / 5120)] = snd (snd ?RU)"
    using append_butlast_last_id[OF neU] u(3) by simp
  have lenO: "length (butlast (snd (snd ?RO))) = 10" using o(4) by simp
  have lenU: "length (butlast (snd (snd ?RU))) = 10" using u(4) by simp
  have runO: "?RO = (Resolved \<lparr>blob_serial = 10, blob_size = 1048576\<rparr>, ?sO, snd (snd ?RO))"
    using o(1,2) by (metis prod.collapse)
  have runU: "?RU = (Resolved \<lparr>blob_serial = 10, blob_size = 1024\<rparr>, ?sU, snd (snd ?RU))"
    using u(1,2) by (metis prod.collapse)
  have nc: "\<not> closeEnough 100 \<lparr>blob_serial = 10, blob_size = 1048576\<rparr>"
    "\<not> closeEnough 100 \<lparr>blob_serial = 10, blob_size = 1024\<rparr>"
    by (simp_all add: search_defs)
  have hO: "maxAttempts \<le> attempts ?sO" "?encO (1031 / 10240) = Some 1048576"
    "\<not> closeEnough 100 \<lparr>blob_serial = length (butlast (snd (snd ?RO))), blob_size = 1048576\<rparr>"
    unfolding lenO using nc by (simp_all add: maxAttempts_def)
  have hU: "maxAttempts \<le> attempts ?sU" "?encU (5119 / 5120) = Some 1024"
    "\<not> closeEnough 100 \<lparr>blob_serial = length (butlast (snd (snd ?RU))), blob_size = 1024\<rparr>"
    unfolding lenU using nc by (simp_all add: maxAttempts_def)
  have bU: "\<forall>bb. bestBlob ?sU = Some bb \<longrightarrow> blob_serial bb < length (butlast (snd (snd ?RU)))"
    unfolding lenU by auto
  from tryCompress_exhausted_returns_last[of ?sO ?encO "1031 / 10240" 1048576 100
      "butlast (snd (snd ?RO))", OF hO]
  have callO: "tryCompress ?encO 100 ?sO (butlast (snd (snd ?RO))) (1031 / 10240)
     = (Resolved \<lparr>blob_serial = 10, blob_size = 1048576\<rparr>, ?sO, snd (snd ?RO))"
    unfolding lenO lgO by blast
  from tryCompress_exhausted_returns_last[of ?sU ?encU "5119 / 5120" 1024 100
      "butlast (snd (snd ?RU))", OF hU]
  have callU: "tryCompress ?encU 100 ?sU (butlast (snd (snd ?RU))) (5119 / 5120)
     = (Resolved \<lparr>blob_serial = 10, blob_size = 1024\<rparr>, ?sU, snd (snd ?RU))"
    unfolding lenU lgU by blast
  from tryCompress_exhausted_returns_last[of ?sU ?encU "5119 / 5120" 1024 100
      "butlast (snd (snd ?RU))", OF hU] bU
  have "bestBlob ?sU \<noteq> Some \<lparr>blob_serial = length (butlast (snd (snd ?RU))), blob_size = 1024\<rparr>"
    by blast
  then have ne: "Some \<lparr>blob_serial = 9, blob_size = 1024\<rparr> \<noteq> Some \<lparr>blob_serial = 10, blob_size = (1024::nat)\<rparr>"
    unfolding lenU by simp
  from callO runO o(3) nc(1) callU runU u(3) nc(2) ne show ?thesis by blast
qed

subsection \<open>The batch and the size of the canvas\<close>

text \<open>
  Claim C9: when the encoder returns no data for one image, the other images of the batch
  are still compressed. In the code the callback of \<open>toBlob\<close> returns on \<open>null\<close> without
  settling the promise, so the \<open>await\<close> in \<open>handleCompress\<close> never returns: for the batch
  \<open>a.jpg, b.jpg\<close> with no data for \<open>a.jpg\<close>, \<open>handleCompress\<close> never completes and the
  compression of \<open>b.jpg\<close> is never started, although \<open>b.jpg\<close> alone is compressed.
\<close>

theorem handleCompress_null_blob_stalls_batch:
  "handleCompress (\<lambda>imageFile dims type q. if fileName imageFile = ''a.jpg'' then None else Some 102400)
      \<lparr>cs_targetSize = 100, cs_format = ''jpeg'', cs_quality = 4 / 5\<rparr>
      [\<lparr>fileName = ''a.jpg'', imgWidth = 800, imgHeight = 600,
         compressedBlob = None, compressedSize = None\<rparr>,
       \<lparr>fileName = ''b.jpg'', imgWidth = 800, imgHeight = 600,
         compressedBlob = None, compressedSize = None\<rparr>]
     = (Pending, [''a.jpg''])
   \<and> handleCompress (\<lambda>imageFile dims type q. if fileName imageFile = ''a.jpg'' then None else Some 102400)
      \<lparr>cs_targetSize = 100, cs_format = ''jpeg'', cs_quality = 4 / 5\<rparr>
      [\<lparr>fileName = ''b.jpg'', imgWidth = 800, imgHeight = 600,
         compressedBlob = None, compressedSize = None\<rparr>]
     = (Resolved [\<lparr>fileName = ''b.jpg'', imgWidth = 800, imgHeight = 600,
                   compressedBlob = Some \<lparr>blob_serial = 0, blob_size = 102400\<rparr>,
                   compressedSize = Some 102400\<rparr>], [''b.jpg''])"
  by (simp add: handleCompress_def compressImage_def tryCompress.simps initialSearch_def
      closeEnough_def sizeKB_def maxAttempts_def)

lemma compressLoop_pending:
  "fst (compressImage toBlob settings imageFile) = Pending \<Longrightarrow>
   compressLoop toBlob settings (imageFile # rest) compressedFiles started
     = (Pending, started @ [fileName imageFile])"
  by simp

lemma compressImage_never_rejects:
  "fst (compressImage toBlob settings imageFile) \<noteq> Rejected"
proof -
  have "fst (tryCompress enc targetKB s lg quality) \<noteq> Rejected" for enc targetKB s lg quality
  proof (induction enc targetKB s lg quality rule: tryCompress.induct)
    case (1 toBlob targetKB s lg quality)
    show ?case
    proof (cases "toBlob quality")
      case None
      then show ?thesis by (simp add: tryCompress_null)
    next
      case (Some bytes)
      let ?b = "\<lparr>blob_serial = length lg, blob_size = bytes\<rparr>"
      show ?thesis
      proof (cases "closeEnough targetKB ?b \<or> attempts s \<ge> maxAttempts")
        case True
        with Some show ?thesis by (simp add: tryCompress_stop)
      next
        case False
        show ?thesis
        proof (cases "sizeKB ?b > targetKB")
          case True
          from "1.IH"(1)[OF Some False True] Some False True
          show ?thesis by (auto simp: tryCompress_over)
        next
          case under: False
          from "1.IH"(2)[OF Some False under] Some False under
          show ?thesis by (auto simp: tryCompress_under)
        qed
      qed
    qed
  qed
  then show ?thesis by (simp add: compressImage_def)
qed

lemma rescale_within:
  "real w \<le> maxDimension \<Longrightarrow> real h \<le> maxDimension \<Longrightarrow> rescale w h = (real w, real h)"
  by (simp add: rescale_def)

text \<open>
  Claim C10: an image whose width or height exceeds 1920 is rescaled before the search, the
  larger dimension to 1920 and the other in proportion; an image within 1920 by 1920 keeps
  its dimensions; and a blob that \<open>compressImage\<close> resolves with was produced by the encoder
  from the canvas of the rescaled size.
\<close>

theorem compressImage_rescales:
  "(real w > 1920 \<or> real h > 1920 \<longrightarrow>
      (w > h \<longrightarrow> rescale w h = (1920, real h * 1920 / real w))
    \<and> (w \<le> h \<longrightarrow> rescale w h = (real w * 1920 / real h, 1920))
    \<and> max (fst (rescale w h)) (snd (rescale w h)) = 1920
    \<and> fst (rescale w h) * real h = snd (rescale w h) * real w)
   \<and> (real w \<le> 1920 \<and> real h \<le> 1920 \<longrightarrow> rescale w h = (real w, real h))
   \<and> (imgWidth imageFile = w \<and> imgHeight imageFile = h
        \<and> fst (compressImage toBlob settings imageFile) = Resolved b \<longrightarrow>
      (\<exists>q. toBlob imageFile (rescale w h) (''image/'' @ cs_format settings) q = Some (blob_size b)))"
proof -
  have big: "max (fst (rescale w h)) (snd (rescale w h)) = 1920
      \<and> fst (rescale w h) * real h = snd (rescale w h) * real w"
    if "real w > 1920 \<or> real h > 1920"
  proof (cases "w > h")
    case True
    with that have w: "real w > 1920" "real h < real w" by auto
    then have "real h * 1920 / real w \<le> 1920"
      by (simp add: divide_le_eq)
    with True that w show ?thesis by (simp add: rescale_def maxDimension_def)
  next
    case False
    with that have h: "real h > 1920" "real w \<le> real h" by auto
    then have "real w * 1920 / real h \<le> 1920"
      by (simp add: divide_le_eq)
    with False that h show ?thesis by (simp add: rescale_def maxDimension_def)
  qed
  have enc: "\<exists>q. toBlob imageFile (rescale w h) (''image/'' @ cs_format settings) q = Some (blob_size b)"
    if "imgWidth imageFile = w" "imgHeight imageFile = h"
      "fst (compressImage toBlob settings imageFile) = Resolved b"
  proof -
    let ?enc = "toBlob imageFile (rescale w h) (''image/'' @ cs_format settings)"
    let ?R = "tryCompress ?enc (cs_targetSize settings) initialSearch [] (cs_quality settings)"
    from that have "fst ?R = Resolved b" by (simp add: compressImage_def)
    then have run: "?R = (Resolved b, fst (snd ?R), snd (snd ?R))" by (metis prod.collapse)
    have "\<And>bb. bestBlob initialSearch = Some bb \<Longrightarrow> blob_serial bb < length ([] :: (search \<times> real) list)"
      by (simp add: initialSearch_def)
    from tryCompress_result_inv[OF run this]
    have "?enc (snd (last (snd (snd ?R)))) = Some (blob_size b)" by simp
    then show ?thesis by blast
  qed
  from big enc show ?thesis
    by (auto simp: rescale_def maxDimension_def)
qed

theorem compressImage_rescales_witness:
  "rescale 3840 2160 = (1920, 1080)
   \<and> rescale 1000 4000 = (480, 1920)
   \<and> rescale 800 600 = (800, 600)
   \<and> fst (compressImage (\<lambda>imageFile dims type q. if dims = (1920, 1080) then Some 102400 else None)
        \<lparr>cs_targetSize = 100, cs_format = ''jpeg'', cs_quality = 4 / 5\<rparr>
        \<lparr>fileName = ''a.jpg'', imgWidth = 3840, imgHeight = 2160,
         compressedBlob = None, compressedSize = None\<rparr>)
       = Resolved \<lparr>blob_serial = 0, blob_size = 102400\<rparr>
   \<and> (\<exists>q. (\<lambda>imageFile dims type q. if dims = (1920, 1080) then Some 102400 else None)
          \<lparr>fileName = ''a.jpg'', imgWidth = 3840, imgHeight = 2160,
           compressedBlob = None, compressedSize = None\<rparr>
          (rescale 3840 2160) (''image/'' @ ''jpeg'') (q::real) = Some (102400::nat))"
proof -
  let ?enc = "\<lambda>(imageFile::ImageFile) (dims::real \<times> real) (type::string) (q::real).
     if dims = (1920, 1080) then Some (102400::nat) else None"
  let ?st = "\<lparr>cs_targetSize = 100, cs_format = ''jpeg'', cs_quality = 4 / 5\<rparr>"
  let ?f = "\<lparr>fileName = ''a.jpg'', imgWidth = 3840, imgHeight = 2160,
         compressedBlob = None, compressedSize = None\<rparr>"
  let ?b = "\<lparr>blob_serial = 0, blob_size = 102400\<rparr>"
  have r: "fst (compressImage ?enc ?st ?f) = Resolved ?b"
    by (simp add: compressImage_def rescale_def maxDimension_def tryCompress.simps
        initialSearch_def closeEnough_def sizeKB_def maxAttempts_def)
  have big: "real 3840 > 1920 \<or> real 2160 > 1920" "(3840::nat) > 2160"
    "real 1000 > 1920 \<or> real 4000 > 1920" "(1000::nat) \<le> 4000"
    "real 800 \<le> 1920 \<and> real 600 \<le> 1920" by simp_all
  note A = compressImage_rescales[of 3840 2160 ?f ?enc ?st ?b]
  note B = compressImage_rescales[of 1000 4000 ?f ?enc ?st ?b]
  note C = compressImage_rescales[of 800 600 ?f ?enc ?st ?b]
  from A big have a: "rescale 3840 2160 = (1920, 1080)" by simp
  from B big have b: "rescale 1000 4000 = (480, 1920)" by simp
  from C big have c: "rescale 800 600 = (800, 600)" by simp
  from A r have d: "\<exists>q. ?enc ?f (rescale 3840 2160) (''image/'' @ cs_format ?st) q = Some (blob_size ?b)"
    by simp
  from a b c r d show ?thesis by simp
qed

section \<open>Properties of the crop interaction\<close>

lemmas cropper_defs = handleMouseDown_def handleMouseMove_def handleMouseUp_def resetCrop_def
  getResizeHandle_def getHandleSize_def dragArea_def initialCropArea_def loadedCropper_def

lemma resizeArea_min_size:
  "50 \<le> ca_width prev \<Longrightarrow> 50 \<le> ca_height prev \<Longrightarrow>
   50 \<le> ca_width (resizeArea handle deltaX deltaY cw ch prev)
   \<and> 50 \<le> ca_height (resizeArea handle deltaX deltaY cw ch prev)"
  by (cases handle) simp_all

lemma dragArea_size:
  "ca_width (dragArea deltaX deltaY cw ch prev) = ca_width prev
   \<and> ca_height (dragArea deltaX deltaY cw ch prev) = ca_height prev"
  by (simp add: dragArea_def)

lemma initialCropArea_min_size:
  "100 \<le> cw \<Longrightarrow> 100 \<le> ch \<Longrightarrow>
   50 \<le> ca_width (initialCropArea cw ch) \<and> 50 \<le> ca_height (initialCropArea cw ch)"
  by (simp add: initialCropArea_def Let_def)

lemma handleMouseDown_frame:
  "cropArea (handleMouseDown px py st) = cropArea st
   \<and> canvasWidth (handleMouseDown px py st) = canvasWidth st
   \<and> canvasHeight (handleMouseDown px py st) = canvasHeight st"
  by (simp add: handleMouseDown_def split: option.split)

lemma handleMouseMove_canvas:
  "canvasWidth (handleMouseMove px py st) = canvasWidth st
   \<and> canvasHeight (handleMouseMove px py st) = canvasHeight st"
  by (simp add: handleMouseMove_def Let_def split: option.split bool.split)

lemma handleMouseMove_min_size:
  "50 \<le> ca_width (cropArea st) \<Longrightarrow> 50 \<le> ca_height (cropArea st) \<Longrightarrow>
   50 \<le> ca_width (cropArea (handleMouseMove px py st))
   \<and> 50 \<le> ca_height (cropArea (handleMouseMove px py st))"
  by (simp add: handleMouseMove_def Let_def resizeArea_min_size dragArea_size
      split: option.split bool.split)

lemma handleEvent_minSizeInv:
  "minSizeInv st \<Longrightarrow> minSizeInv (handleEvent st ev)"
proof (cases ev)
  case (MouseDown px py)
  assume "minSizeInv st"
  with MouseDown show ?thesis by (simp add: minSizeInv_def handleMouseDown_frame)
next
  case (MouseMove px py)
  assume "minSizeInv st"
  with MouseMove show ?thesis
    by (simp add: minSizeInv_def handleMouseMove_canvas handleMouseMove_min_size)
next
  case (TouchStart px py)
  assume "minSizeInv st"
  with TouchStart show ?thesis by (simp add: minSizeInv_def handleMouseDown_frame)
next
  case (TouchMove px py)
  assume "minSizeInv st"
  with TouchMove show ?thesis
    by (simp add: minSizeInv_def handleMouseMove_canvas handleMouseMove_min_size)
next
  case ResetCrop
  assume "minSizeInv st"
  with ResetCrop show ?thesis
    by (simp add: minSizeInv_def resetCrop_def initialCropArea_min_size)
qed (simp_all add: minSizeInv_def handleMouseUp_def)

lemma foldl_handleEvent_minSizeInv:
  "minSizeInv st \<Longrightarrow> minSizeInv (foldl handleEvent st evs)"
  by (induction evs arbitrary: st) (simp_all add: handleEvent_minSizeInv)

text \<open>
  Claim C4, as stated, fails for the initial crop rectangle: on a canvas of 60 by 60 (a
  60 by 60 image, shown at scale 1) \<open>img.onload\<close> creates a rectangle of 30 by 30.
\<close>

theorem initial_crop_area_below_min_size:
  "ca_width (cropArea (loadedCropper (60, 60) 60 60)) = 30
   \<and> ca_height (cropArea (loadedCropper (60, 60) 60 60)) = 30
   \<and> \<not> (50 \<le> ca_width (cropArea (loadedCropper (60, 60) 60 60)))"
  by (simp add: loadedCropper_def initialCropArea_def Let_def)

text \<open>
  Claim C4, amended: on a canvas at least 100 wide and 100 high, the crop rectangle has
  \<open>width >= 50\<close> and \<open>height >= 50\<close> after \<open>img.onload\<close> has created it and after every
  sequence of events (pointer down, move, up and leave, touch events, rotations, reset).
\<close>

theorem crop_area_min_size:
  assumes "100 \<le> cw" and "100 \<le> ch"
  shows "50 \<le> ca_width (cropArea (foldl handleEvent (loadedCropper img cw ch) evs))
       \<and> 50 \<le> ca_height (cropArea (foldl handleEvent (loadedCropper img cw ch) evs))"
proof -
  from assms have "minSizeInv (loadedCropper img cw ch)"
    using initialCropArea_min_size[of cw ch] by (simp add: minSizeInv_def loadedCropper_def)
  then have "minSizeInv (foldl handleEvent (loadedCropper img cw ch) evs)"
    by (rule foldl_handleEvent_minSizeInv)
  then show ?thesis by (simp add: minSizeInv_def)
qed

theorem crop_area_min_size_witness:
  "(100::real) \<le> 600 \<and> (100::real) \<le> 400
   \<and> 50 \<le> ca_width (cropArea (foldl handleEvent (loadedCropper (1200, 800) 600 400)
        [MouseDown 400 300, MouseMove 0 0, MouseUp]))
   \<and> 50 \<le> ca_height (cropArea (foldl handleEvent (loadedCropper (1200, 800) 600 400)
        [MouseDown 400 300, MouseMove 0 0, MouseUp]))
   \<and> cropArea (foldl handleEvent (loadedCropper (1200, 800) 600 400)
        [MouseDown 400 300, MouseMove 0 0, MouseUp])
       = \<lparr>ca_x = 200, ca_y = 100, ca_width = 50, ca_height = 50\<rparr>"
proof -
  have h: "(100::real) \<le> 600" "(100::real) \<le> 400" by simp_all
  have "cropArea (foldl handleEvent (loadedCropper (1200, 800) 600 400)
        [MouseDown 400 300, MouseMove 0 0, MouseUp])
       = \<lparr>ca_x = 200, ca_y = 100, ca_width = 50, ca_height = 50\<rparr>"
    by (simp add: cropper_defs Let_def)
  with h crop_area_min_size[OF h, of "(1200, 800)" "[MouseDown 400 300, MouseMove 0 0, MouseUp]"]
  show ?thesis by simp
qed

lemma resizeArea_east_south_inside:
  assumes "handle = He \<or> handle = Hs \<or> handle = Hse"
    and "50 \<le> ca_width prev" and "50 \<le> ca_height prev"
    and "ca_x prev + ca_width prev \<le> cw" and "ca_y prev + ca_height prev \<le> ch"
  shows "ca_x (resizeArea handle deltaX deltaY cw ch prev) = ca_x prev
       \<and> ca_y (resizeArea handle deltaX deltaY cw ch prev) = ca_y prev
       \<and> ca_x prev + ca_width (resizeArea handle deltaX deltaY cw ch prev) \<le> cw
       \<and> ca_y prev + ca_height (resizeArea handle deltaX deltaY cw ch prev) \<le> ch"
  using assms by auto

text \<open>
  Claim C5: every resize keeps the rectangle within the canvas and the edges opposite the
  dragged handle where they were. The east and south handles do so (lemma
  \<open>resizeArea_east_south_inside\<close>). The handles on the west and north sides do not: \<open>x\<close> is
  clamped at 0 but the width is \<open>prev.width - deltaX\<close> with no upper bound. On a canvas of
  600 by 400 the events below move the rectangle to \<open>x = 10\<close>, widen it to the right edge of
  the canvas (\<open>x + width = 600\<close>), grab the west handle at \<open>x = 20\<close> and move the pointer to
  \<open>x = 0\<close>: the rectangle becomes \<open>x = 0\<close>, \<open>width = 610\<close>, so its east edge has moved from
  600 to 610, outside the canvas.
\<close>

theorem resize_west_moves_east_edge:
  "cropArea (foldl handleEvent (loadedCropper (1200, 800) 600 400)
     [MouseDown 300 200, MouseMove 110 200, MouseUp,
      MouseDown 210 200, MouseMove 600 200, MouseUp,
      MouseDown 20 200])
     = \<lparr>ca_x = 10, ca_y = 100, ca_width = 590, ca_height = 200\<rparr>
   \<and> resizeHandle (foldl handleEvent (loadedCropper (1200, 800) 600 400)
     [MouseDown 300 200, MouseMove 110 200, MouseUp,
      MouseDown 210 200, MouseMove 600 200, MouseUp,
      MouseDown 20 200]) = Some Hw
   \<and> cropArea (foldl handleEvent (loadedCropper (1200, 800) 600 400)
     [MouseDown 300 200, MouseMove 110 200, MouseUp,
      MouseDown 210 200, MouseMove 600 200, MouseUp,
      MouseDown 20 200, MouseMove 0 200])
     = \<lparr>ca_x = 0, ca_y = 100, ca_width = 610, ca_height = 200\<rparr>
   \<and> resizeArea Hw (- 20) 0 600 400 \<lparr>ca_x = 10, ca_y = 100, ca_width = 590, ca_height = 200\<rparr>
     = \<lparr>ca_x = 0, ca_y = 100, ca_width = 610, ca_height = 200\<rparr>"
  by (simp add: cropper_defs Let_def)

text \<open>
  Claim C8: for a rectangle inside the canvas, a pointer move while dragging leaves \<open>width\<close>
  and \<open>height\<close> unchanged and sets \<open>x\<close> and \<open>y\<close> to the moved position clamped into
  \<open>[0, canvas.width - width]\<close> and \<open>[0, canvas.height - height]\<close>.
\<close>

theorem drag_preserves_size:
  assumes "isDragging st" and "\<not> (isResizing st \<and> resizeHandle st \<noteq> None)"
    and "0 \<le> ca_x (cropArea st)" and "ca_x (cropArea st) + ca_width (cropArea st) \<le> canvasWidth st"
    and "0 \<le> ca_y (cropArea st)" and "ca_y (cropArea st) + ca_height (cropArea st) \<le> canvasHeight st"
  shows "ca_width (cropArea (handleMouseMove px py st)) = ca_width (cropArea st)
       \<and> ca_height (cropArea (handleMouseMove px py st)) = ca_height (cropArea st)
       \<and> ca_x (cropArea (handleMouseMove px py st))
           = max 0 (min (ca_x (cropArea st) + (px - fst (dragStart st)))
                        (canvasWidth st - ca_width (cropArea st)))
       \<and> ca_y (cropArea (handleMouseMove px py st))
           = max 0 (min (ca_y (cropArea st) + (py - snd (dragStart st)))
                        (canvasHeight st - ca_height (cropArea st)))
       \<and> 0 \<le> ca_x (cropArea (handleMouseMove px py st))
       \<and> ca_x (cropArea (handleMouseMove px py st)) \<le> canvasWidth st - ca_width (cropArea st)
       \<and> 0 \<le> ca_y (cropArea (handleMouseMove px py st))
       \<and> ca_y (cropArea (handleMouseMove px py st)) \<le> canvasHeight st - ca_height (cropArea st)"
proof -
  from assms(1,2) have eq: "cropArea (handleMouseMove px py st)
      = dragArea (px - fst (dragStart st)) (py - snd (dragStart st))
          (canvasWidth st) (canvasHeight st) (cropArea st)"
    by (auto simp: handleMouseMove_def Let_def split: option.split bool.split)
  from assms(3,4) have w: "0 \<le> canvasWidth st - ca_width (cropArea st)" by simp
  from assms(5,6) have h: "0 \<le> canvasHeight st - ca_height (cropArea st)" by simp
  from w h show ?thesis unfolding eq by (simp add: dragArea_def)
qed

text \<open>
  The drag of claim C8 on a canvas of 600 by 400: the initial rectangle, grabbed at
  \<open>(300, 200)\<close> and moved to the right border, stops at \<open>x = 400\<close> and stays 200 by 200.
\<close>

theorem drag_preserves_size_witness:
  "isDragging (handleMouseDown 300 200 (loadedCropper (1200, 800) 600 400))
   \<and> \<not> (isResizing (handleMouseDown 300 200 (loadedCropper (1200, 800) 600 400))
        \<and> resizeHandle (handleMouseDown 300 200 (loadedCropper (1200, 800) 600 400)) \<noteq> None)
   \<and> cropArea (handleMouseDown 300 200 (loadedCropper (1200, 800) 600 400))
       = \<lparr>ca_x = 200, ca_y = 100, ca_width = 200, ca_height = 200\<rparr>
   \<and> cropArea (handleMouseMove 600 200 (handleMouseDown 300 200 (loadedCropper (1200, 800) 600 400)))
       = \<lparr>ca_x = 400, ca_y = 100, ca_width = 200, ca_height = 200\<rparr>
   \<and> ca_width (cropArea (handleMouseMove 600 200
         (handleMouseDown 300 200 (loadedCropper (1200, 800) 600 400)))) = 200
   \<and> ca_x (cropArea (handleMouseMove 600 200
         (handleMouseDown 300 200 (loadedCropper (1200, 800) 600 400)))) \<le> 600 - 200"
proof -
  let ?st = "handleMouseDown 300 200 (loadedCropper (1200, 800) 600 400)"
  have st: "?st = (loadedCropper (1200, 800) 600 400)\<lparr>isDragging := True, dragStart := (300, 200)\<rparr>"
    by (simp add: cropper_defs Let_def)
  have h: "isDragging ?st" "\<not> (isResizing ?st \<and> resizeHandle ?st \<noteq> None)"
    "0 \<le> ca_x (cropArea ?st)" "ca_x (cropArea ?st) + ca_width (cropArea ?st) \<le> canvasWidth ?st"
    "0 \<le> ca_y (cropArea ?st)" "ca_y (cropArea ?st) + ca_height (cropArea ?st) \<le> canvasHeight ?st"
    unfolding st by (simp_all add: loadedCropper_def initialCropArea_def Let_def)
  have a: "cropArea ?st = \<lparr>ca_x = 200, ca_y = 100, ca_width = 200, ca_height = 200\<rparr>"
    "canvasWidth ?st = 600"
    unfolding st by (simp_all add: loadedCropper_def initialCropArea_def Let_def)
  have m: "cropArea (handleMouseMove 600 200 ?st)
       = \<lparr>ca_x = 400, ca_y = 100, ca_width = 200, ca_height = 200\<rparr>"
    unfolding st by (simp add: cropper_defs Let_def)
  from drag_preserves_size[OF h, of 600 200] h a m show ?thesis by simp
qed

section \<open>Properties of the crop extraction\<close>

subsection \<open>Rounding to double precision\<close>

text \<open>
  \<open>binaryExponent\<close> is the binary exponent, and \<open>toDouble v\<close> is a multiple of \<open>2 ^
  (binaryExponent v - 52)\<close> at most half of that unit away from \<open>v\<close>.
\<close>

lemma binaryExponent_bounds:
  assumes "v \<noteq> 0"
  shows "2 powr real_of_int (binaryExponent v) \<le> \<bar>v\<bar>
       \<and> \<bar>v\<bar> < 2 powr real_of_int (binaryExponent v + 1)"
proof (cases "1 \<le> \<bar>v\<bar>")
  case True
  define n where "n = \<lfloor>\<bar>v\<bar>\<rfloor>"
  from True have n: "0 < n" by (simp add: n_def)
  from bitlen_bounds[OF n] have lo: "2 ^ nat (bitlen n - 1) \<le> n" and hi: "n < 2 ^ nat (bitlen n)"
    by simp_all
  from n have k: "1 \<le> bitlen n" by (auto simp: bitlen_alt_def)
  have e: "binaryExponent v = bitlen n - 1" using True by (simp add: binaryExponent_def n_def)
  have "(2::real) ^ nat (bitlen n - 1) \<le> real_of_int n" using lo by simp
  also have "real_of_int n \<le> \<bar>v\<bar>" by (simp add: n_def)
  finally have 1: "2 ^ nat (bitlen n - 1) \<le> \<bar>v\<bar>" .
  from hi have "n + 1 \<le> 2 ^ nat (bitlen n)" by simp
  then have "real_of_int (n + 1) \<le> (2::real) ^ nat (bitlen n)"
    by (metis of_int_le_iff of_int_numeral of_int_power)
  moreover have "\<bar>v\<bar> < real_of_int (n + 1)" unfolding n_def by linarith
  ultimately have 2: "\<bar>v\<bar> < 2 ^ nat (bitlen n)" by linarith
  from k have p1: "2 powr real_of_int (bitlen n - 1) = 2 ^ nat (bitlen n - 1)"
    using powr_real_of_int[of 2 "bitlen n - 1"] by simp
  from k have p2: "2 powr real_of_int (bitlen n - 1 + 1) = 2 ^ nat (bitlen n)"
    using powr_real_of_int[of 2 "bitlen n"] by simp
  from 1 2 show ?thesis unfolding e p1 p2 by simp
next
  case False
  with assms have a: "0 < \<bar>v\<bar>" "\<bar>v\<bar> < 1" by simp_all
  define y where "y = 1 / \<bar>v\<bar>"
  define m where "m = \<lceil>y\<rceil> - 1"
  from a have y: "1 < y" by (simp add: y_def)
  then have m: "0 < m" unfolding m_def by linarith
  from bitlen_bounds[OF m] have lo: "2 ^ nat (bitlen m - 1) \<le> m" and hi: "m < 2 ^ nat (bitlen m)"
    by simp_all
  from m have k: "1 \<le> bitlen m" by (auto simp: bitlen_alt_def)
  have e: "binaryExponent v = - bitlen m" using False by (simp add: binaryExponent_def m_def y_def)
  from hi have "m + 1 \<le> 2 ^ nat (bitlen m)" by simp
  then have "real_of_int (m + 1) \<le> (2::real) ^ nat (bitlen m)"
    by (metis of_int_le_iff of_int_numeral of_int_power)
  moreover have "y \<le> real_of_int (m + 1)" unfolding m_def by simp
  ultimately have yhi: "y \<le> 2 ^ nat (bitlen m)" by linarith
  have "(2::real) ^ nat (bitlen m - 1) \<le> real_of_int m" using lo by simp
  moreover have "real_of_int m < y" unfolding m_def by linarith
  ultimately have ylo: "2 ^ nat (bitlen m - 1) < y" by linarith
  from yhi a have 1: "1 / 2 ^ nat (bitlen m) \<le> \<bar>v\<bar>"
    unfolding y_def by (simp add: field_simps)
  from ylo a have 2: "\<bar>v\<bar> < 1 / 2 ^ nat (bitlen m - 1)"
    unfolding y_def by (simp add: field_simps)
  from k have p1: "2 powr real_of_int (- bitlen m) = 1 / 2 ^ nat (bitlen m)"
    using powr_real_of_int[of 2 "- bitlen m"] by (simp add: field_simps)
  from k have p2: "2 powr real_of_int (- bitlen m + 1) = 1 / 2 ^ nat (bitlen m - 1)"
  proof (cases "bitlen m = 1")
    case True
    then show ?thesis by simp
  next
    case False
    with k have "- bitlen m + 1 < 0" by simp
    moreover have "nat (- (- bitlen m + 1)) = nat (bitlen m - 1)" by simp
    ultimately show ?thesis
      using powr_real_of_int[of 2 "- bitlen m + 1"] by (simp add: field_simps)
  qed
  from 1 2 show ?thesis unfolding e p1 p2 by simp
qed


lemma roundHalfEven_nearest: "\<bar>real_of_int (roundHalfEven v) - v\<bar> \<le> 1 / 2"
  unfolding roundHalfEven_def by (auto split: if_splits)

lemma toDouble_scaled:
  "v \<noteq> 0 \<Longrightarrow>
   toDouble v = real_of_int (roundHalfEven (v / 2 powr real_of_int (binaryExponent v - 52)))
                  * 2 powr real_of_int (binaryExponent v - 52)"
proof (cases "52 \<le> binaryExponent v")
  case True
  assume "v \<noteq> 0"
  from True have "2 powr real_of_int (binaryExponent v - 52) = 2 ^ nat (binaryExponent v - 52)"
    using powr_real_of_int[of 2 "binaryExponent v - 52"] by simp
  with True \<open>v \<noteq> 0\<close> show ?thesis by (simp add: toDouble_def)
next
  case False
  assume "v \<noteq> 0"
  from False have "2 powr real_of_int (binaryExponent v - 52) = 1 / 2 ^ nat (52 - binaryExponent v)"
    using powr_real_of_int[of 2 "binaryExponent v - 52"] by (simp add: field_simps)
  with False \<open>v \<noteq> 0\<close> show ?thesis by (simp add: toDouble_def)
qed

lemma toDouble_nearest:
  "\<bar>toDouble v - v\<bar> \<le> 2 powr real_of_int (binaryExponent v - 53)"
proof (cases "v = 0")
  case True
  then show ?thesis by (simp add: toDouble_def)
next
  case False
  define u where "u = 2 powr real_of_int (binaryExponent v - 52)"
  have u: "0 < u" by (simp add: u_def)
  have "toDouble v - v = (real_of_int (roundHalfEven (v / u)) - v / u) * u"
    using u toDouble_scaled[OF False] by (simp add: u_def field_simps)
  then have "\<bar>toDouble v - v\<bar> = \<bar>real_of_int (roundHalfEven (v / u)) - v / u\<bar> * u"
    using u by (simp add: abs_mult)
  also have "\<dots> \<le> 1 / 2 * u"
    using roundHalfEven_nearest[of "v / u"] u by (simp add: mult_right_mono)
  also have "1 / 2 * u = 2 powr real_of_int (binaryExponent v - 53)"
  proof -
    have "real_of_int (binaryExponent v - 52) = real_of_int (binaryExponent v - 53) + 1" by simp
    then have "u = 2 powr real_of_int (binaryExponent v - 53) * 2"
      unfolding u_def by (simp only: powr_add) simp
    then show ?thesis by simp
  qed
  finally show ?thesis .
qed

subsection \<open>The size of the output and the source rectangle\<close>

lemmas double_defs = toDouble_def binaryExponent_def roundHalfEven_def compute_bitlen

lemma toDouble_one: "toDouble 1 = 1"
  by (simp add: double_defs)

lemma jsDiv_self: "a \<noteq> 0 \<Longrightarrow> jsDiv a a = 1"
  by (simp add: jsDiv_def toDouble_one)

lemma jsMul_one: "toDouble a = a \<Longrightarrow> jsMul a 1 = a"
  by (simp add: jsMul_def)

text \<open>
  The operations on the inputs used below, each evaluated from the definition of
  \<open>toDouble\<close>.
\<close>

lemma double_evaluations:
  "jsDiv 1200 600 = 2"
  "jsDiv 800 400 = 2"
  "jsMul 50 2 = 100"
  "jsMul 200 2 = 400"
  "jsDiv 1200 800 = 3 / 2"
  "jsDiv 800 1200 = 6004799503160661 / 9007199254740992"
  "jsMul 50 (6004799503160661 / 9007199254740992) = 2345624805922133 / 70368744177664"
  "jsAdd 50 200 = 250"
  "jsMul 250 (3 / 2) = 375"
  "jsSub 1200 375 = 825"
  "jsMul 200 (6004799503160661 / 9007199254740992) = 2345624805922133 / 17592186044416"
  "jsMul 200 (3 / 2) = 300"
  "jsDiv 750 600 = 5 / 4"
  "jsDiv 219 175 = 2817966623983253 / 2251799813685248"
  "jsMul (1025 / 4) (5 / 4) = 5125 / 16"
  "jsMul (175 / 4) (2817966623983253 / 2251799813685248) = 7705377487454207 / 140737488355328"
  "jsMul (175 / 2) (5 / 4) = 875 / 8"
  "jsMul (175 / 2) (2817966623983253 / 2251799813685248) = 7705377487454207 / 70368744177664"
  "jsDiv 750 750 = 1"
  "jsDiv 219 219 = 1"
  "jsMul (1025 / 4) 1 = 1025 / 4"
  "jsMul (175 / 4) 1 = 175 / 4"
  "jsMul (175 / 2) 1 = 175 / 2"
  "jsDiv 300 300 = 1"
  "jsMul (21 / 2) 1 = 21 / 2"
  "jsMul (121 / 2) 1 = 121 / 2"
  "jsAdd (21 / 2) (121 / 2) = 71"
  "jsMul 71 1 = 71"
  "jsSub 300 71 = 229"
  by (simp_all add: jsMul_def jsDiv_def jsAdd_def jsSub_def double_defs)

lemma jsround_evaluations:
  "jsround 100 = 100"
  "jsround 400 = 400"
  "jsround (2345624805922133 / 70368744177664) = 33"
  "jsround 825 = 825"
  "jsround (2345624805922133 / 17592186044416) = 133"
  "jsround 300 = 300"
  "jsround (5125 / 16) = 320"
  "jsround (7705377487454207 / 140737488355328) = 55"
  "jsround (875 / 8) = 109"
  "jsround (7705377487454207 / 70368744177664) = 109"
  "jsround (1025 / 4) = 256"
  "jsround (175 / 4) = 44"
  "jsround (175 / 2) = 88"
  "jsround (21 / 2) = 11"
  "jsround (121 / 2) = 61"
  "jsround 229 = 229"
  by (simp_all add: jsround_def)

lemmas crop_evaluations = double_evaluations jsround_evaluations

text \<open>
  The rounding of the product matters. For an image of 1242 by 2208 on a canvas of 225 by
  400 the initial rectangle starts at \<open>y = 143.75\<close>, and \<open>143.75 * (2208 / 400)\<close> is 793.5
  exactly but just below it in double precision: \<open>Math.round\<close> gives 793.
\<close>

lemma double_evaluations_portrait:
  "jsDiv 1242 225 = 1553741871442821 / 281474976710656"
  "jsDiv 2208 400 = 1553741871442821 / 281474976710656"
  "jsMul (225 / 4) (1553741871442821 / 281474976710656) = 621 / 2"
  "jsMul (575 / 4) (1553741871442821 / 281474976710656) = 6979699813122047 / 8796093022208"
  "jsMul (225 / 2) (1553741871442821 / 281474976710656) = 621"
  by (simp_all add: jsMul_def jsDiv_def double_defs)

lemma handleCrop_rounds_double_product:
  "cropArea (loadedCropper (1242, 2208) 225 400)
     = \<lparr>ca_x = 225 / 4, ca_y = 575 / 4, ca_width = 225 / 2, ca_height = 225 / 2\<rparr>
   \<and> (575 / 4 :: real) * (2208 / 400) = 1587 / 2
   \<and> handleCrop ((loadedCropper (1242, 2208) 225 400)\<lparr>rotation := 90\<rparr>)
     = Some \<lparr>out_width = 621, out_height = 621, src_region = Some (793, 310, 621, 621)\<rparr>"
proof -
  have r: "jsround (621 / 2) = 311" "jsround (6979699813122047 / 8796093022208) = 793"
    "jsround 621 = 621"
    by (simp_all add: jsround_def)
  show ?thesis
    by (simp add: handleCrop_def loadedCropper_def initialCropArea_def
        double_evaluations_portrait r Let_def)
qed

text \<open>
  Claim C6, as stated, fails. In \<open>ImageCropper.tsx\<close>, for the rectangle of 200 by 200 at
  \<open>(50, 50)\<close> on a canvas of 600 by 400 showing an image of 1200 by 800, the output is 400 by
  400, the size of the rectangle in source pixels. In the second cropper source, whose canvas
  has the size of the image, the same rectangle on the same image at 90 degrees gives an
  output of 133 by 300.
\<close>

theorem handleCrop_output_is_source_scaled:
  "handleCrop ((loadedCropper (1200, 800) 600 400)
       \<lparr>cropArea := \<lparr>ca_x = 50, ca_y = 50, ca_width = 200, ca_height = 200\<rparr>\<rparr>)
     = Some \<lparr>out_width = 400, out_height = 400, src_region = Some (100, 100, 400, 400)\<rparr>
   \<and> jsround 200 = 200
   \<and> handleCrop2 (drawCanvas2 ((loadedCropper (1200, 800) 600 400)
       \<lparr>cropArea := \<lparr>ca_x = 50, ca_y = 50, ca_width = 200, ca_height = 200\<rparr>, rotation := 90\<rparr>))
     = Some \<lparr>out_width = 133, out_height = 300, src_region = Some (33, 825, 300, 133)\<rparr>"
  by (simp add: handleCrop_def handleCrop2_def drawCanvas2_def loadedCropper_def
      crop_evaluations Let_def) (simp add: jsround_def)

lemma handleCrop2_quarter_turn_size:
  assumes "imageRef st = Some (iw, ih)" and "rotation st = 90 \<or> rotation st = 270"
  shows "\<exists>r2. handleCrop2 (drawCanvas2 st) = Some r2
       \<and> out_width r2 = jsround (jsMul (ca_height (cropArea st)) (jsDiv (real ih) (real iw)))
       \<and> out_height r2 = jsround (jsMul (ca_width (cropArea st)) (jsDiv (real iw) (real ih)))"
  using assms by (auto simp: handleCrop2_def drawCanvas2_def Let_def)

text \<open>
  Claim C6, amended: for every rotation in 0, 90, 180, 270 the output of \<open>handleCrop\<close> in
  \<open>ImageCropper.tsx\<close> is the crop rectangle multiplied by the scale factors \<open>img.width /
  canvas.width\<close> and \<open>img.height / canvas.height\<close>, in double precision, and rounded; it is
  the rounded size of the rectangle when the image is shown at scale 1. In the second cropper
  source, whose \<open>drawCanvas\<close> gives the canvas the size of the image, the output at 0 and
  180 degrees is the rounded size of the rectangle. The width and height of the rectangle
  are doubles. (What the second cropper source does at 90 and 270 degrees is the lemma
  above.)
\<close>

theorem handleCrop_output_size:
  assumes "imageRef st = Some (iw, ih)" and "0 < iw" and "0 < ih"
    and "0 < canvasWidth st" and "0 < canvasHeight st"
    and "rotation st = 0 \<or> rotation st = 90 \<or> rotation st = 180 \<or> rotation st = 270"
    and "toDouble (ca_width (cropArea st)) = ca_width (cropArea st)"
    and "toDouble (ca_height (cropArea st)) = ca_height (cropArea st)"
  shows "\<exists>r1 r2. handleCrop st = Some r1 \<and> handleCrop2 (drawCanvas2 st) = Some r2
       \<and> out_width r1
           = jsround (jsMul (ca_width (cropArea st)) (jsDiv (real iw) (canvasWidth st)))
       \<and> out_height r1
           = jsround (jsMul (ca_height (cropArea st)) (jsDiv (real ih) (canvasHeight st)))
       \<and> (real iw = canvasWidth st \<and> real ih = canvasHeight st \<longrightarrow>
            out_width r1 = jsround (ca_width (cropArea st))
            \<and> out_height r1 = jsround (ca_height (cropArea st)))
       \<and> (rotation st = 0 \<or> rotation st = 180 \<longrightarrow>
            out_width r2 = jsround (ca_width (cropArea st))
            \<and> out_height r2 = jsround (ca_height (cropArea st)))"
proof -
  let ?w = "ca_width (cropArea st)" and ?h = "ca_height (cropArea st)"
  from assms(2,3) have nz: "real iw \<noteq> 0" "real ih \<noteq> 0" by simp_all
  have one: "jsMul ?w (jsDiv (real iw) (real iw)) = ?w" "jsMul ?h (jsDiv (real ih) (real ih)) = ?h"
    using nz assms(7,8) by (simp_all add: jsDiv_self jsMul_one)
  let ?r1 = "\<lparr>out_width = jsround (jsMul ?w (jsDiv (real iw) (canvasWidth st))),
      out_height = jsround (jsMul ?h (jsDiv (real ih) (canvasHeight st))),
      src_region = src_region (the (handleCrop st))\<rparr>"
  have r1: "handleCrop st = Some ?r1"
    using assms(1) by (simp add: handleCrop_def Let_def split: prod.split)
  have r2: "\<exists>r2. handleCrop2 (drawCanvas2 st) = Some r2
       \<and> (rotation st = 0 \<or> rotation st = 180 \<longrightarrow>
            out_width r2 = jsround ?w \<and> out_height r2 = jsround ?h)"
    using assms(1,6) one
    by (auto simp: handleCrop2_def drawCanvas2_def Let_def)
  then obtain r2 where r2': "handleCrop2 (drawCanvas2 st) = Some r2"
    "rotation st = 0 \<or> rotation st = 180 \<longrightarrow>
            out_width r2 = jsround ?w \<and> out_height r2 = jsround ?h"
    by blast
  have s1: "real iw = canvasWidth st \<and> real ih = canvasHeight st \<longrightarrow>
            out_width ?r1 = jsround ?w \<and> out_height ?r1 = jsround ?h"
    using one by auto
  from r1 r2' s1 show ?thesis
    by (intro exI[of _ ?r1] exI[of _ r2]) simp
qed

theorem handleCrop_output_size_witness:
  "handleCrop ((loadedCropper (1200, 800) 600 400)
       \<lparr>cropArea := \<lparr>ca_x = 50, ca_y = 50, ca_width = 200, ca_height = 200\<rparr>, rotation := 90\<rparr>)
     = Some \<lparr>out_width = 400, out_height = 400, src_region = Some (100, 700, 400, 400)\<rparr>
   \<and> cropArea (loadedCropper (750, 219) 600 175)
     = \<lparr>ca_x = 1025 / 4, ca_y = 175 / 4, ca_width = 175 / 2, ca_height = 175 / 2\<rparr>
   \<and> handleCrop (loadedCropper (750, 219) 600 175)
     = Some \<lparr>out_width = 109, out_height = 109, src_region = Some (320, 55, 109, 109)\<rparr>
   \<and> handleCrop2 (drawCanvas2 (loadedCropper (750, 219) 600 175))
     = Some \<lparr>out_width = 88, out_height = 88, src_region = Some (256, 44, 88, 88)\<rparr>
   \<and> jsround (175 / 2) = 88
   \<and> (\<exists>r1 r2.
        handleCrop ((loadedCropper (1200, 800) 600 400)
          \<lparr>cropArea := \<lparr>ca_x = 50, ca_y = 50, ca_width = 200, ca_height = 200\<rparr>, rotation := 90\<rparr>)
          = Some r1
      \<and> handleCrop2 (drawCanvas2 ((loadedCropper (1200, 800) 600 400)
          \<lparr>cropArea := \<lparr>ca_x = 50, ca_y = 50, ca_width = 200, ca_height = 200\<rparr>, rotation := 90\<rparr>))
          = Some r2
      \<and> out_width r1 = 400 \<and> out_height r1 = 400)
   \<and> (\<exists>r1 r2.
        handleCrop (loadedCropper (750, 219) 600 175) = Some r1
      \<and> handleCrop2 (drawCanvas2 (loadedCropper (750, 219) 600 175)) = Some r2
      \<and> out_width r1 = 109 \<and> out_height r1 = 109 \<and> out_width r2 = 88 \<and> out_height r2 = 88)
   \<and> (\<exists>r1 r2.
        handleCrop ((loadedCropper (600, 400) 600 400)
          \<lparr>cropArea := \<lparr>ca_x = 50, ca_y = 50, ca_width = 200, ca_height = 200\<rparr>, rotation := 180\<rparr>)
          = Some r1
      \<and> handleCrop2 (drawCanvas2 ((loadedCropper (600, 400) 600 400)
          \<lparr>cropArea := \<lparr>ca_x = 50, ca_y = 50, ca_width = 200, ca_height = 200\<rparr>, rotation := 180\<rparr>))
          = Some r2
      \<and> out_width r1 = 200 \<and> out_height r1 = 200 \<and> out_width r2 = 200 \<and> out_height r2 = 200)"
proof -
  let ?st = "(loadedCropper (1200, 800) 600 400)
       \<lparr>cropArea := \<lparr>ca_x = 50, ca_y = 50, ca_width = 200, ca_height = 200\<rparr>, rotation := 90\<rparr>"
  let ?su = "loadedCropper (750, 219) 600 175"
  let ?sv = "(loadedCropper (600, 400) 600 400)
       \<lparr>cropArea := \<lparr>ca_x = 50, ca_y = 50, ca_width = 200, ca_height = 200\<rparr>, rotation := 180\<rparr>"
  have dbl: "toDouble 200 = 200" "toDouble (175 / 2) = 175 / 2"
    by (simp_all add: double_defs)
  have h: "imageRef ?st = Some (1200, 800)" "(0::nat) < 1200" "(0::nat) < 800"
    "0 < canvasWidth ?st" "0 < canvasHeight ?st"
    "rotation ?st = 0 \<or> rotation ?st = 90 \<or> rotation ?st = 180 \<or> rotation ?st = 270"
    "toDouble (ca_width (cropArea ?st)) = ca_width (cropArea ?st)"
    "toDouble (ca_height (cropArea ?st)) = ca_height (cropArea ?st)"
    by (simp_all add: loadedCropper_def dbl)
  have area: "cropArea ?su
     = \<lparr>ca_x = 1025 / 4, ca_y = 175 / 4, ca_width = 175 / 2, ca_height = 175 / 2\<rparr>"
    by (simp add: loadedCropper_def initialCropArea_def Let_def)
  have k: "imageRef ?su = Some (750, 219)" "(0::nat) < 750" "(0::nat) < 219"
    "0 < canvasWidth ?su" "0 < canvasHeight ?su"
    "rotation ?su = 0 \<or> rotation ?su = 90 \<or> rotation ?su = 180 \<or> rotation ?su = 270"
    "toDouble (ca_width (cropArea ?su)) = ca_width (cropArea ?su)"
    "toDouble (ca_height (cropArea ?su)) = ca_height (cropArea ?su)"
    unfolding area by (simp_all add: loadedCropper_def dbl)
  have l: "imageRef ?sv = Some (600, 400)" "(0::nat) < 600" "(0::nat) < 400"
    "0 < canvasWidth ?sv" "0 < canvasHeight ?sv"
    "rotation ?sv = 0 \<or> rotation ?sv = 90 \<or> rotation ?sv = 180 \<or> rotation ?sv = 270"
    "toDouble (ca_width (cropArea ?sv)) = ca_width (cropArea ?sv)"
    "toDouble (ca_height (cropArea ?sv)) = ca_height (cropArea ?sv)"
    by (simp_all add: loadedCropper_def dbl)
  have v: "jsround (jsMul (ca_width (cropArea ?st)) (jsDiv (real 1200) (canvasWidth ?st))) = 400"
    "jsround (jsMul (ca_height (cropArea ?st)) (jsDiv (real 800) (canvasHeight ?st))) = 400"
    by (simp_all add: loadedCropper_def crop_evaluations)
  have u: "jsround (jsMul (ca_width (cropArea ?su)) (jsDiv (real 750) (canvasWidth ?su))) = 109"
    "jsround (jsMul (ca_height (cropArea ?su)) (jsDiv (real 219) (canvasHeight ?su))) = 109"
    "jsround (ca_width (cropArea ?su)) = 88" "jsround (ca_height (cropArea ?su)) = 88"
    "rotation ?su = 0"
    unfolding area by (simp_all add: loadedCropper_def crop_evaluations)
  have w: "real 600 = canvasWidth ?sv \<and> real 400 = canvasHeight ?sv"
    "jsround (ca_width (cropArea ?sv)) = 200" "jsround (ca_height (cropArea ?sv)) = 200"
    "rotation ?sv = 180"
    by (simp_all add: loadedCropper_def jsround_def)
  have e1: "handleCrop ?st
     = Some \<lparr>out_width = 400, out_height = 400, src_region = Some (100, 700, 400, 400)\<rparr>"
    by (simp add: handleCrop_def loadedCropper_def crop_evaluations Let_def)
  have e3: "handleCrop ?su
     = Some \<lparr>out_width = 109, out_height = 109, src_region = Some (320, 55, 109, 109)\<rparr>"
    by (simp add: handleCrop_def loadedCropper_def initialCropArea_def crop_evaluations Let_def)
  have e4: "handleCrop2 (drawCanvas2 ?su)
     = Some \<lparr>out_width = 88, out_height = 88, src_region = Some (256, 44, 88, 88)\<rparr>"
    by (simp add: handleCrop2_def drawCanvas2_def loadedCropper_def initialCropArea_def
        crop_evaluations Let_def)
  from handleCrop_output_size[OF h] v
  have A: "\<exists>r1 r2. handleCrop ?st = Some r1 \<and> handleCrop2 (drawCanvas2 ?st) = Some r2
      \<and> out_width r1 = 400 \<and> out_height r1 = 400"
    by auto
  from handleCrop_output_size[OF k] u
  have B: "\<exists>r1 r2. handleCrop ?su = Some r1 \<and> handleCrop2 (drawCanvas2 ?su) = Some r2
      \<and> out_width r1 = 109 \<and> out_height r1 = 109 \<and> out_width r2 = 88 \<and> out_height r2 = 88"
    by auto
  from handleCrop_output_size[OF l] w
  have C: "\<exists>r1 r2. handleCrop ?sv = Some r1 \<and> handleCrop2 (drawCanvas2 ?sv) = Some r2
      \<and> out_width r1 = 200 \<and> out_height r1 = 200 \<and> out_width r2 = 200 \<and> out_height r2 = 200"
    by auto
  have r: "jsround (175 / 2) = 88" by (simp add: jsround_def)
  from e1 area e3 e4 r A B C show ?thesis by blast
qed

text \<open>
  Claim C7: at 90 and at 270 degrees there is a state in which the two implementations of
  \<open>handleCrop\<close> pass different source rectangles to \<open>drawImage\<close>. One rounds \<open>x\<close> and
  \<open>width\<close> separately before subtracting them from the size of the image, the other rounds
  the difference: for a 300 by 300 image on a 300 by 300 canvas and the rectangle
  \<open>x = y = 10.5\<close>, \<open>width = height = 60.5\<close> the offsets are 228 and 229.
\<close>

theorem handleCrop_implementations_differ:
  "(\<exists>st r1 r2. rotation st = 90 \<and> handleCrop st = Some r1 \<and> handleCrop2 st = Some r2
       \<and> src_region r1 \<noteq> src_region r2)
   \<and> (\<exists>st r1 r2. rotation st = 270 \<and> handleCrop st = Some r1 \<and> handleCrop2 st = Some r2
       \<and> src_region r1 \<noteq> src_region r2)"
proof -
  let ?a = "\<lparr>ca_x = 21 / 2, ca_y = 21 / 2, ca_width = 121 / 2, ca_height = 121 / 2\<rparr>"
  let ?st = "\<lambda>rot. (loadedCropper (300, 300) 300 300)\<lparr>cropArea := ?a, rotation := rot\<rparr>"
  have a1: "handleCrop (?st 90)
     = Some \<lparr>out_width = 61, out_height = 61, src_region = Some (11, 228, 61, 61)\<rparr>"
    by (simp add: handleCrop_def loadedCropper_def crop_evaluations Let_def)
  have a2: "handleCrop2 (?st 90)
     = Some \<lparr>out_width = 61, out_height = 61, src_region = Some (11, 229, 61, 61)\<rparr>"
    by (simp add: handleCrop2_def loadedCropper_def crop_evaluations Let_def)
  have b1: "handleCrop (?st 270)
     = Some \<lparr>out_width = 61, out_height = 61, src_region = Some (228, 11, 61, 61)\<rparr>"
    by (simp add: handleCrop_def loadedCropper_def crop_evaluations Let_def)
  have b2: "handleCrop2 (?st 270)
     = Some \<lparr>out_width = 61, out_height = 61, src_region = Some (229, 11, 61, 61)\<rparr>"
    by (simp add: handleCrop2_def loadedCropper_def crop_evaluations Let_def)
  have "rotation (?st 90) = 90 \<and> handleCrop (?st 90) = Some \<lparr>out_width = 61, out_height = 61, src_region = Some (11, 228, 61, 61)\<rparr>
     \<and> handleCrop2 (?st 90) = Some \<lparr>out_width = 61, out_height = 61, src_region = Some (11, 229, 61, 61)\<rparr>
     \<and> src_region \<lparr>out_width = 61, out_height = 61, src_region = Some (11, 228, 61, 61)\<rparr>
        \<noteq> src_region \<lparr>out_width = 61, out_height = 61, src_region = Some (11, 229, 61, 61)\<rparr>"
    using a1 a2 by simp
  then have A: "\<exists>st r1 r2. rotation st = 90 \<and> handleCrop st = Some r1 \<and> handleCrop2 st = Some r2
       \<and> src_region r1 \<noteq> src_region r2" by blast
  have "rotation (?st 270) = 270 \<and> handleCrop (?st 270) = Some \<lparr>out_width = 61, out_height = 61, src_region = Some (228, 11, 61, 61)\<rparr>
     \<and> handleCrop2 (?st 270) = Some \<lparr>out_width = 61, out_height = 61, src_region = Some (229, 11, 61, 61)\<rparr>
     \<and> src_region \<lparr>out_width = 61, out_height = 61, src_region = Some (228, 11, 61, 61)\<rparr>
        \<noteq> src_region \<lparr>out_width = 61, out_height = 61, src_region = Some (229, 11, 61, 61)\<rparr>"
    using b1 b2 by simp
  then have B: "\<exists>st r1 r2. rotation st = 270 \<and> handleCrop st = Some r1 \<and> handleCrop2 st = Some r2
       \<and> src_region r1 \<noteq> src_region r2" by blast
  from A B show ?thesis by blast
qed

end
